theory Spec2Isabelle
  imports Main "HOL-Library.Char_ord" "HOL-Library.List_Lexorder" "HOL-Library.AList"
begin

section \<open>Values, failures and console output\<close>

text \<open>
  A JavaScript string is modelled as a \<^typ>\<open>string\<close>; with \<open>Char_ord\<close> and
  \<open>List_Lexorder\<close> the order \<open><\<close> on strings is the lexicographic order on character
  codes, which is what JavaScript's \<open>a > b\<close> computes on two strings (the model is exact on
  ASCII text, which Slack ids and timestamps are). An optional property is an
  \<open>option\<close>; \<open>undefined\<close> and the empty string are both falsy.

  The text of a transcript comes from a file of any content, and \<open>trim\<close> looks for
  white space beyond ASCII in it: that text is modelled as the sequence of its UTF-16
  code units (\<open>utf16\<close>), which is what a JavaScript string is; \<open>units\<close> gives the code
  units of a literal.

  A thrown exception is a value of type \<open>error\<close>: the three validation errors that
  \<open>messages schedule\<close> throws itself, and \<open>Failure m\<close> for anything thrown by the
  authenticated client (\<open>m\<close> is \<open>err.message\<close>).
\<close>

datatype error = InvalidDateFormat | NotInFuture | TooFarInFuture | Failure string

fun truthy :: "string option \<Rightarrow> bool" where
  "truthy None = False"
| "truthy (Some s) = (s \<noteq> [])"

definition js_or :: "string option \<Rightarrow> string option \<Rightarrow> string option" where
  "js_or a b = (if truthy a then a else b)"

type_synonym utf16 = "nat list"

definition code_unit :: "char \<Rightarrow> nat" where
  "code_unit c = of_char c"

definition units :: "string \<Rightarrow> utf16" where
  "units s = map code_unit s"

definition startsWith :: "'a list \<Rightarrow> 'a list \<Rightarrow> bool" where
  "startsWith s p = (take (length p) s = p)"

definition is_digit :: "char \<Rightarrow> bool" where
  "is_digit c = (CHR ''0'' \<le> c \<and> c \<le> CHR ''9'')"

text \<open>The regular expression \<open>/^\d+$/\<close>: one or more characters, all decimal digits.\<close>

definition all_digits :: "string \<Rightarrow> bool" where
  "all_digits s = (s \<noteq> [] \<and> list_all is_digit s)"

text \<open>\<open>parseInt(s, 10)\<close> on a string of decimal digits.\<close>

definition digit_val :: "char \<Rightarrow> int" where
  "digit_val c = int (of_char c) - 48"

definition parseInt :: "string \<Rightarrow> int" where
  "parseInt s = foldl (\<lambda>acc c. 10 * acc + digit_val c) 0 s"

text \<open>A counter inside a template literal: the decimal digits of a natural number.\<close>

fun string_of_nat :: "nat \<Rightarrow> string" where
  "string_of_nat n =
     (if n < 10 then [char_of (48 + n)]
      else string_of_nat (n div 10) @ [char_of (48 + n mod 10)])"

declare string_of_nat.simps [simp del]

text \<open>
  What a command writes to the terminal, in order. \<open>PrintError p e\<close> is
  \<open>error(p + err.message)\<close>; \<open>Downloaded p n\<close> and \<open>DownloadFailed f e\<close> are the two
  lines that end a download spinner (the path written and the number of bytes; the file
  name and the error); the other constructors carry the literal text.
\<close>

datatype event =
    SpinnerSucceed string
  | SpinnerFail string
  | SpinnerWarn string
  | PrintError string error
  | PrintErrorText string
  | PrintSuccess string
  | PrintWarning string
  | PrintInfo string
  | ConsoleError string
  | ConsoleLog string
  | Downloaded string nat
  | DownloadFailed string error

section \<open>The remote client\<close>

datatype SlackFile = SlackFile
  (file_id: string)
  (file_name: "string option")
  (filetype: "string option")
  (url_private: "string option")
  (url_private_download: "string option")
  (mode: "string option")
  (transcription_status: "string option")
  (vtt: "string option")

datatype SlackMessage = SlackMessage
  (ts: string)
  (user: "string option")
  (reply_count: "int option")
  (files: "SlackFile list")
  (transcript: "utf16 option")
  (thread_replies: "SlackMessage list option")

record SlackUnreadChannel =
  chan_id :: string
  chan_name :: string
  unread_count :: int
  is_muted :: bool

record SlackUser =
  user_id :: string
  real_name :: "string option"

text \<open>
  The operations of \<open>SlackClient\<close> that the commands below call. Each returns
  \<open>Inl e\<close> when the call throws. \<open>openConversation\<close> returns \<open>dmResponse.channel.id\<close>,
  \<open>postMessage\<close> returns \<open>response.ts\<close>, \<open>scheduleMessage\<close> returns
  \<open>response.scheduled_message_id\<close>, \<open>getConversationInfo\<close> returns
  \<open>infoResponse.channel?.last_read\<close>, the two message fetches return
  \<open>response.messages || []\<close>, \<open>getUserInfo\<close> returns \<open>userResponse.user\<close> when
  \<open>userResponse.ok\<close> holds, \<open>getUserCounts\<close> returns \<open>countsResponse.channels || []\<close>,
  \<open>listFiles\<close> (channel, types, count) returns \<open>response.files || []\<close>,
  \<open>fetchFileContent\<close> returns the text of the response as code units,
  \<open>fetchFileBinary\<close> returns \<open>buffer.byteLength\<close>.
\<close>

record SlackClient =
  openConversation :: "string \<Rightarrow> error + string"
  postMessage :: "string \<Rightarrow> string \<Rightarrow> string option \<Rightarrow> error + string"
  scheduleMessage :: "string \<Rightarrow> string \<Rightarrow> int \<Rightarrow> string option \<Rightarrow> error + string"
  getConversationInfo :: "string \<Rightarrow> error + string option"
  getConversationHistory :: "string \<Rightarrow> string \<Rightarrow> int \<Rightarrow> error + SlackMessage list"
  getConversationReplies :: "string \<Rightarrow> string \<Rightarrow> error + SlackMessage list"
  markConversation :: "string \<Rightarrow> string \<Rightarrow> error + unit"
  getUserInfo :: "string \<Rightarrow> error + SlackUser option"
  getUserCounts :: "error + SlackUnreadChannel list"
  listFiles :: "string \<Rightarrow> string option \<Rightarrow> string \<Rightarrow> error + SlackFile list"
  fetchFileContent :: "string \<Rightarrow> error + utf16"
  fetchFileBinary :: "string \<Rightarrow> error + nat"
  listDrafts :: "bool \<Rightarrow> error + string list option"
  createDraft :: "string \<Rightarrow> string \<Rightarrow> error + string option"
  deleteDraft :: "string \<Rightarrow> error + unit"

text \<open>
  The remote operations a \<open>messages\<close> or \<open>drafts\<close> command issues, in order, and what a command
  leaves behind: the calls, the terminal output and the exit code of the process
  (\<open>process.exit(1)\<close> gives 1, returning from the action gives 0).
\<close>

datatype call =
    OpenConversation string
  | PostMessage string string "string option"
  | ScheduleMessage string string int "string option"
  | ListDrafts bool
  | CreateDraft string string
  | DeleteDraft string

record outcome =
  calls :: "call list"
  printed :: "event list"
  exit_code :: nat

section \<open>messages send, messages schedule\<close>

record message_options =
  recipientId :: string
  message :: string
  time :: string
  threadTs :: "string option"

text \<open>
  \<open>getAuthenticatedClient\<close> is not part of the command: its result is the parameter
  \<open>auth\<close>, \<open>Inl e\<close> when it throws.
\<close>

definition send_post :: "SlackClient \<Rightarrow> message_options \<Rightarrow> call list \<Rightarrow> string \<Rightarrow> outcome" where
  "send_post client opts cs channelId =
     (case postMessage client channelId (message opts) (threadTs opts) of
        Inl e \<Rightarrow>
          \<lparr>calls = cs @ [PostMessage channelId (message opts) (threadTs opts)],
           printed = [SpinnerFail ''Failed to send message'', PrintError [] e],
           exit_code = 1\<rparr>
      | Inr rts \<Rightarrow>
          \<lparr>calls = cs @ [PostMessage channelId (message opts) (threadTs opts)],
           printed = [SpinnerSucceed ''Message sent successfully!'',
                      PrintSuccess (''Message timestamp: '' @ rts)],
           exit_code = 0\<rparr>)"

definition send_action :: "error + SlackClient \<Rightarrow> message_options \<Rightarrow> outcome" where
  "send_action auth opts =
     (case auth of
        Inl e \<Rightarrow>
          \<lparr>calls = [], printed = [SpinnerFail ''Failed to send message'', PrintError [] e],
           exit_code = 1\<rparr>
      | Inr client \<Rightarrow>
          if startsWith (recipientId opts) ''U'' then
            (case openConversation client (recipientId opts) of
               Inl e \<Rightarrow>
                 \<lparr>calls = [OpenConversation (recipientId opts)],
                  printed = [SpinnerFail ''Failed to send message'', PrintError [] e],
                  exit_code = 1\<rparr>
             | Inr channelId \<Rightarrow>
                 send_post client opts [OpenConversation (recipientId opts)] channelId)
          else send_post client opts [] (recipientId opts))"

text \<open>
  The time of \<open>messages schedule\<close>: a string of digits is a Unix timestamp; anything
  else goes through \<open>new Date(s).getTime()\<close>, the parameter \<open>dateParse\<close> (milliseconds,
  \<open>None\<close> for \<open>NaN\<close>). \<open>Math.floor(x / 1000)\<close> on an integer is \<open>div\<close>.
\<close>

definition parse_time :: "(string \<Rightarrow> int option) \<Rightarrow> string \<Rightarrow> error + int" where
  "parse_time dateParse s =
     (if all_digits s then Inr (parseInt s)
      else (case dateParse s of
              None \<Rightarrow> Inl InvalidDateFormat
            | Some ms \<Rightarrow> Inr (ms div 1000)))"

definition schedule_failed :: "call list \<Rightarrow> error \<Rightarrow> outcome" where
  "schedule_failed cs e =
     \<lparr>calls = cs, printed = [SpinnerFail ''Failed to schedule message'', PrintError [] e],
      exit_code = 1\<rparr>"

definition schedule_post ::
  "SlackClient \<Rightarrow> message_options \<Rightarrow> int \<Rightarrow> call list \<Rightarrow> string \<Rightarrow> outcome" where
  "schedule_post client opts postAt cs channelId =
     (case scheduleMessage client channelId (message opts) postAt (threadTs opts) of
        Inl e \<Rightarrow>
          schedule_failed (cs @ [ScheduleMessage channelId (message opts) postAt (threadTs opts)]) e
      | Inr sid \<Rightarrow>
          \<lparr>calls = cs @ [ScheduleMessage channelId (message opts) postAt (threadTs opts)],
           printed = [SpinnerSucceed ''Message scheduled successfully!'',
                      PrintSuccess (''Scheduled message ID: '' @ sid)],
           exit_code = 0\<rparr>)"

text \<open>\<open>dateNow\<close> is \<open>Date.now()\<close>, in milliseconds.\<close>

definition schedule_action ::
  "error + SlackClient \<Rightarrow> (string \<Rightarrow> int option) \<Rightarrow> int \<Rightarrow> message_options \<Rightarrow> outcome" where
  "schedule_action auth dateParse dateNow opts =
     (case auth of
        Inl e \<Rightarrow> schedule_failed [] e
      | Inr client \<Rightarrow>
          (case parse_time dateParse (time opts) of
             Inl e \<Rightarrow> schedule_failed [] e
           | Inr postAt \<Rightarrow>
               (let now = dateNow div 1000 in
                if postAt \<le> now then schedule_failed [] NotInFuture
                else
                  (let maxTime = now + (120 * 24 * 60 * 60) in
                   if postAt > maxTime then schedule_failed [] TooFarInFuture
                   else if startsWith (recipientId opts) ''U'' then
                     (case openConversation client (recipientId opts) of
                        Inl e \<Rightarrow> schedule_failed [OpenConversation (recipientId opts)] e
                      | Inr channelId \<Rightarrow>
                          schedule_post client opts postAt
                            [OpenConversation (recipientId opts)] channelId)
                   else schedule_post client opts postAt [] (recipientId opts)))))"

section \<open>drafts list, create, delete\<close>

text \<open>
  \<open>listDrafts\<close> returns \<open>response.drafts\<close> (\<open>None\<close> when the property is missing),
  each draft already rendered to the lines the command prints for it; \<open>createDraft\<close>
  returns \<open>response.draft?.id\<close>. The catch blocks of the three commands stop the
  spinner, print the error and return.
\<close>

definition drafts_list_action :: "error + SlackClient \<Rightarrow> bool \<Rightarrow> outcome" where
  "drafts_list_action auth all_flag =
     (case auth of
        Inl e \<Rightarrow> \<lparr>calls = [], printed = [PrintError ''Error: '' e], exit_code = 0\<rparr>
      | Inr client \<Rightarrow>
          (case listDrafts client all_flag of
             Inl e \<Rightarrow>
               \<lparr>calls = [ListDrafts all_flag], printed = [PrintError ''Error: '' e],
                exit_code = 0\<rparr>
           | Inr None \<Rightarrow>
               \<lparr>calls = [ListDrafts all_flag], printed = [PrintSuccess ''No drafts found''],
                exit_code = 0\<rparr>
           | Inr (Some drafts) \<Rightarrow>
               if length drafts = 0 then
                 \<lparr>calls = [ListDrafts all_flag], printed = [PrintSuccess ''No drafts found''],
                  exit_code = 0\<rparr>
               else
                 \<lparr>calls = [ListDrafts all_flag],
                  printed =
                    ConsoleLog (''Drafts ('' @ string_of_nat (length drafts) @ '')'')
                    # map ConsoleLog drafts
                    @ [PrintSuccess (''Found '' @ string_of_nat (length drafts) @ '' draft(s)'')],
                  exit_code = 0\<rparr>))"

definition drafts_create_action :: "error + SlackClient \<Rightarrow> string \<Rightarrow> string \<Rightarrow> outcome" where
  "drafts_create_action auth channelId txt =
     (case auth of
        Inl e \<Rightarrow> \<lparr>calls = [], printed = [PrintError ''Error: '' e], exit_code = 0\<rparr>
      | Inr client \<Rightarrow>
          (case createDraft client channelId txt of
             Inl e \<Rightarrow>
               \<lparr>calls = [CreateDraft channelId txt], printed = [PrintError ''Error: '' e],
                exit_code = 0\<rparr>
           | Inr (Some d) \<Rightarrow>
               \<lparr>calls = [CreateDraft channelId txt],
                printed = [PrintSuccess ''Draft created successfully'',
                           ConsoleLog (''Draft ID: '' @ d)],
                exit_code = 0\<rparr>
           | Inr None \<Rightarrow>
               \<lparr>calls = [CreateDraft channelId txt], printed = [PrintSuccess ''Draft created''],
                exit_code = 0\<rparr>))"

definition drafts_delete_action :: "error + SlackClient \<Rightarrow> string \<Rightarrow> outcome" where
  "drafts_delete_action auth draftId =
     (case auth of
        Inl e \<Rightarrow>
          \<lparr>calls = [],
           printed = [PrintErrorText ''Failed to delete draft'', PrintError ''Error: '' e],
           exit_code = 0\<rparr>
      | Inr client \<Rightarrow>
          (case deleteDraft client draftId of
             Inl e \<Rightarrow>
               \<lparr>calls = [DeleteDraft draftId],
                printed = [PrintErrorText ''Failed to delete draft'', PrintError ''Error: '' e],
                exit_code = 0\<rparr>
           | Inr _ \<Rightarrow>
               \<lparr>calls = [DeleteDraft draftId],
                printed = [PrintSuccess ''Draft deleted successfully''],
                exit_code = 0\<rparr>))"

section \<open>parseVttToText\<close>

text \<open>
  \<open>s.split(d)\<close> for a separator of one character: the pieces between the
  separators, the empty string included (the empty string splits into one empty piece).
\<close>

fun split_on :: "'a \<Rightarrow> 'a list \<Rightarrow> 'a list list" where
  "split_on d [] = [[]]"
| "split_on d (c # cs) =
     (if c = d then [] # split_on d cs
      else (case split_on d cs of
              [] \<Rightarrow> [[c]]
            | l # ls \<Rightarrow> (c # l) # ls))"

text \<open>\<open>xs.join(sep)\<close>.\<close>

fun join_with :: "'a list \<Rightarrow> 'a list list \<Rightarrow> 'a list" where
  "join_with sep [] = []"
| "join_with sep [x] = x"
| "join_with sep (x # y # ys) = x @ sep @ join_with sep (y # ys)"

text \<open>
  \<open>s.trim()\<close> removes from both ends of \<open>s\<close> the code units that are white space or
  line terminators of ECMAScript. White space: tab U+0009, vertical tab U+000B, form
  feed U+000C, the byte order mark U+FEFF and the space separators of Unicode (U+0020,
  the no-break space U+00A0, U+1680, U+2000 to U+200A, U+202F, U+205F, U+3000). Line
  terminators: line feed U+000A, carriage return U+000D, U+2028, U+2029. All of them
  are single code units.
\<close>

definition is_space :: "nat \<Rightarrow> bool" where
  "is_space c =
     (c \<in> {0x0009, 0x000B, 0x000C, 0xFEFF, 0x0020, 0x00A0, 0x1680, 0x202F, 0x205F, 0x3000,
           0x000A, 0x000D, 0x2028, 0x2029}
      \<or> (0x2000 \<le> c \<and> c \<le> 0x200A))"

definition js_trim :: "utf16 \<Rightarrow> utf16" where
  "js_trim s = rev (dropWhile is_space (rev (dropWhile is_space s)))"

text \<open>The regular expression \<open>/^\d+$/\<close> on code units: \<open>\d\<close> is one of \<open>0\<close> to \<open>9\<close>.\<close>

definition is_digit_unit :: "nat \<Rightarrow> bool" where
  "is_digit_unit c = (code_unit CHR ''0'' \<le> c \<and> c \<le> code_unit CHR ''9'')"

definition all_digit_units :: "utf16 \<Rightarrow> bool" where
  "all_digit_units s = (s \<noteq> [] \<and> list_all is_digit_unit s)"

text \<open>\<open>s.includes(p)\<close>: \<open>p\<close> starts at some position of \<open>s\<close>.\<close>

fun str_includes :: "'a list \<Rightarrow> 'a list \<Rightarrow> bool" where
  "str_includes [] p = (p = [])"
| "str_includes (c # cs) p = (startsWith (c # cs) p \<or> str_includes cs p)"

text \<open>
  \<open>s.replace(/<[^>]+>/g, "")\<close>. A match starts at a \<open><\<close>, takes the code units up
  to the next \<open>>\<close> (at least one, none of them \<open>>\<close>; a \<open><\<close> or a line terminator may be
  among them) and that \<open>>\<close>; the search goes on after the match. A \<open><\<close> followed at
  once by \<open>>\<close>, or with no \<open>>\<close> after it, stays. \<open>LT\<close>, \<open>GT\<close> and \<open>LF\<close> are the code
  units of \<open><\<close>, \<open>>\<close> and the line feed.
\<close>

definition LT :: nat where
  "LT = code_unit CHR ''<''"

definition GT :: nat where
  "GT = code_unit CHR ''>''"

definition LF :: nat where
  "LF = code_unit CHR 0x0A"

function strip_tags :: "utf16 \<Rightarrow> utf16" where
  "strip_tags [] = []"
| "strip_tags (c # cs) =
     (if c = LT \<and> takeWhile (\<lambda>x. x \<noteq> GT) cs \<noteq> []
         \<and> dropWhile (\<lambda>x. x \<noteq> GT) cs \<noteq> []
      then strip_tags (tl (dropWhile (\<lambda>x. x \<noteq> GT) cs))
      else c # strip_tags cs)"
  by pat_completeness auto
termination
proof (relation "measure length")
  fix c :: nat and cs :: utf16
  have "length (tl (dropWhile (\<lambda>x. x \<noteq> GT) cs)) \<le> length cs"
    using length_dropWhile_le [of "\<lambda>x. x \<noteq> GT" cs] by simp
  then show "(tl (dropWhile (\<lambda>x. x \<noteq> GT) cs), c # cs) \<in> measure length"
    by simp
qed simp_all

text \<open>The predicate of the first \<open>filter\<close>, and the function (formatter.ts, lines 455-470).\<close>

definition vtt_keep :: "utf16 \<Rightarrow> bool" where
  "vtt_keep line =
     (let trimmed = js_trim line in
      trimmed \<noteq> [] \<and> \<not> startsWith trimmed (units ''WEBVTT'')
      \<and> \<not> str_includes trimmed (units ''-->'') \<and> \<not> all_digit_units trimmed)"

definition parseVttToText :: "utf16 \<Rightarrow> utf16" where
  "parseVttToText vttContent =
     join_with (units '' '')
       (filter (\<lambda>l. l \<noteq> [])
          (map (\<lambda>line. js_trim (strip_tags line))
             (filter vtt_keep (split_on LF vttContent))))"



section \<open>Transcripts and thread replies of conversations read\<close>

text \<open>
  Both functions mutate the messages of the batch in place; the model returns the batch
  after the mutation, together with what was written to the console. The messages come
  from one parsed response, so no two entries of the batch are the same object.
\<close>

fun set_transcript :: "utf16 \<Rightarrow> SlackMessage \<Rightarrow> SlackMessage" where
  "set_transcript t (SlackMessage mts usr rc fs tr reps) = SlackMessage mts usr rc fs (Some t) reps"

fun set_thread_replies :: "SlackMessage list \<Rightarrow> SlackMessage \<Rightarrow> SlackMessage" where
  "set_thread_replies rs (SlackMessage mts usr rc fs tr reps) = SlackMessage mts usr rc fs tr (Some rs)"

text \<open>
  \<open>file.transcription?.status === 'complete' && file.vtt\<close>: the reference to fetch,
  when there is one.
\<close>

definition vtt_ref :: "SlackFile \<Rightarrow> string option" where
  "vtt_ref f =
     (if transcription_status f = Some ''complete'' \<and> truthy (vtt f) then vtt f else None)"

text \<open>
  The inner loop of \<open>fetchTranscriptsForMessages\<close> over the files of one message: the
  texts pushed to \<open>transcripts\<close> and the console lines, both in order. A fetch that
  throws is caught, logged and skipped.
\<close>

fun transcripts_of_files ::
  "SlackClient \<Rightarrow> SlackFile list \<Rightarrow> utf16 list \<Rightarrow> event list \<Rightarrow> utf16 list \<times> event list" where
  "transcripts_of_files client [] transcripts log = (transcripts, log)"
| "transcripts_of_files client (f # fs) transcripts log =
     (case vtt_ref f of
        None \<Rightarrow> transcripts_of_files client fs transcripts log
      | Some url \<Rightarrow>
          (case fetchFileContent client url of
             Inl e \<Rightarrow>
               transcripts_of_files client fs transcripts
                 (log @ [ConsoleError (''Failed to fetch transcript for file '' @ file_id f)])
           | Inr vttContent \<Rightarrow>
               (let txt = parseVttToText vttContent in
                transcripts_of_files client fs
                  (if txt \<noteq> [] then transcripts @ [txt] else transcripts) log)))"

text \<open>The body of the outer loop: one message of \<open>videosToFetch\<close>.\<close>

definition attach_transcript :: "SlackClient \<Rightarrow> SlackMessage \<Rightarrow> SlackMessage \<times> event list" where
  "attach_transcript client msg =
     (case transcripts_of_files client (files msg) [] [] of
        (transcripts, log) \<Rightarrow>
          (if length transcripts > 0
           then set_transcript (join_with (units ''\<newline>\<newline>'') transcripts) msg
           else msg,
           log))"

fun fetchTranscriptsForMessages ::
  "SlackClient \<Rightarrow> SlackMessage list \<Rightarrow> SlackMessage list \<times> event list" where
  "fetchTranscriptsForMessages client [] = ([], [])"
| "fetchTranscriptsForMessages client (msg # msgs) =
     (if list_ex (\<lambda>f. vtt_ref f \<noteq> None) (files msg) then
        (case attach_transcript client msg of
           (msg', log) \<Rightarrow>
             (case fetchTranscriptsForMessages client msgs of
                (msgs', log') \<Rightarrow> (msg' # msgs', log @ log')))
      else
        (case fetchTranscriptsForMessages client msgs of
           (msgs', log') \<Rightarrow> (msg # msgs', log')))"

text \<open>
  The user lookups for the replies of one thread: a user that is not yet in \<open>users\<close> is
  looked up; a lookup that throws is caught and logged.
\<close>

fun reply_users ::
  "SlackClient \<Rightarrow> SlackMessage list \<Rightarrow> (string \<rightharpoonup> SlackUser) \<Rightarrow> event list
     \<Rightarrow> (string \<rightharpoonup> SlackUser) \<times> event list" where
  "reply_users client [] users log = (users, log)"
| "reply_users client (reply # rest) users log =
     (case user reply of
        None \<Rightarrow> reply_users client rest users log
      | Some u \<Rightarrow>
          if u \<noteq> [] \<and> users u = None then
            (case getUserInfo client u of
               Inl e \<Rightarrow> reply_users client rest users (log @ [ConsoleError (''Failed to fetch user '' @ u)])
             | Inr None \<Rightarrow> reply_users client rest users log
             | Inr (Some info) \<Rightarrow> reply_users client rest (users(u \<mapsto> info)) log)
          else reply_users client rest users log)"

text \<open>
  \<open>fetchThreadRepliesForMessages\<close>: the loop over the messages with
  \<open>(msg.reply_count ?? 0) > 0\<close>. \<open>replies.slice(1)\<close> is \<open>drop 1\<close>. A fetch of replies that
  throws is caught and logged, and the message keeps its \<open>thread_replies\<close>.
\<close>

fun fetchThreadRepliesForMessages ::
  "SlackClient \<Rightarrow> string \<Rightarrow> SlackMessage list \<Rightarrow> (string \<rightharpoonup> SlackUser)
     \<Rightarrow> SlackMessage list \<times> (string \<rightharpoonup> SlackUser) \<times> event list" where
  "fetchThreadRepliesForMessages client channelId [] users = ([], users, [])"
| "fetchThreadRepliesForMessages client channelId (msg # msgs) users =
     (if (case reply_count msg of None \<Rightarrow> 0 | Some n \<Rightarrow> n) > 0 then
        (case getConversationReplies client channelId (ts msg) of
           Inl e \<Rightarrow>
             (case fetchThreadRepliesForMessages client channelId msgs users of
                (msgs', users', log') \<Rightarrow>
                  (msg # msgs', users',
                   ConsoleError (''Failed to fetch thread replies for message '' @ ts msg) # log'))
         | Inr replies \<Rightarrow>
             (let threadReplies = drop 1 replies in
              case reply_users client threadReplies users [] of
                (users1, log) \<Rightarrow>
                  (case fetchThreadRepliesForMessages client channelId msgs users1 of
                     (msgs', users', log') \<Rightarrow>
                       (set_thread_replies threadReplies msg # msgs', users', log @ log'))))
      else
        (case fetchThreadRepliesForMessages client channelId msgs users of
           (msgs', users', log') \<Rightarrow> (msg # msgs', users', log')))"

text \<open>
  What the loop does to one message, on its own: the description the loop is compared
  with.
\<close>

definition expand_thread :: "SlackClient \<Rightarrow> string \<Rightarrow> SlackMessage \<Rightarrow> SlackMessage" where
  "expand_thread client channelId msg =
     (if (case reply_count msg of None \<Rightarrow> 0 | Some n \<Rightarrow> n) > 0 then
        (case getConversationReplies client channelId (ts msg) of
           Inl e \<Rightarrow> msg
         | Inr replies \<Rightarrow> set_thread_replies (drop 1 replies) msg)
      else msg)"

section \<open>conversations unread\<close>

record unread_options =
  opt_channel :: "string option"
  opt_show :: bool
  opt_markRead :: bool
  opt_includeMuted :: bool

text \<open>\<open>a || d\<close> with a string default.\<close>

definition or_else :: "string option \<Rightarrow> string \<Rightarrow> string" where
  "or_else a d = (case a of None \<Rightarrow> d | Some s \<Rightarrow> if s = [] then d else s)"

text \<open>
  The filters of lines 445-454: conversations with unread messages, without the muted
  ones unless \<open>--include-muted\<close>, and only the one of \<open>--channel\<close> when it is given.
\<close>

definition select_unread :: "unread_options \<Rightarrow> SlackUnreadChannel list \<Rightarrow> SlackUnreadChannel list" where
  "select_unread options allChannels =
     (let unreadChannels = filter (\<lambda>ch. unread_count ch > 0) allChannels;
          unreadChannels =
            (if \<not> opt_includeMuted options then filter (\<lambda>ch. \<not> is_muted ch) unreadChannels
             else unreadChannels)
      in if truthy (opt_channel options)
         then filter (\<lambda>ch. Some (chan_id ch) = opt_channel options) unreadChannels
         else unreadChannels)"

text \<open>
  \<open>unreadChannels.sort((a, b) => b.unread_count - a.unread_count)\<close>: a stable sort, most
  unread first.
\<close>

definition sort_unread :: "SlackUnreadChannel list \<Rightarrow> SlackUnreadChannel list" where
  "sort_unread unreadChannels = sort_key (\<lambda>ch. - unread_count ch) unreadChannels"

text \<open>
  Lines 492-503, the fetches for one conversation: the watermark (\<open>'0'\<close> when there is
  none), the history from the watermark on, and the local filter \<open>msg.ts > lastRead\<close>.
  Either fetch may throw.
\<close>

definition fetch_unread :: "SlackClient \<Rightarrow> SlackUnreadChannel \<Rightarrow> error + SlackMessage list" where
  "fetch_unread client channel =
     (case getConversationInfo client (chan_id channel) of
        Inl e \<Rightarrow> Inl e
      | Inr last_read \<Rightarrow>
          (let lastRead = or_else last_read ''0'' in
           case getConversationHistory client (chan_id channel) lastRead
                  (min (unread_count channel + 5) 100) of
             Inl e \<Rightarrow> Inl e
           | Inr history \<Rightarrow> Inr (filter (\<lambda>msg. ts msg > lastRead) history)))"

text \<open>\<open>messages.reduce((max, msg) => msg.ts > max ? msg.ts : max, '0')\<close>.\<close>

definition latest_ts :: "SlackMessage list \<Rightarrow> string" where
  "latest_ts messages = foldl (\<lambda>mx msg. if ts msg > mx then ts msg else mx) ''0'' messages"

text \<open>
  The loop over the conversations (lines 489-543). \<open>latestTimestamps\<close> is the \<open>Map\<close> of
  the source, as the list of its entries in insertion order: \<open>set\<close> on a key that is
  present replaces the value in place, \<open>set\<close> on a new key appends an entry, which is
  \<open>AList.update\<close>. \<open>shown\<close> is what was printed: for each header the conversation and its
  messages in the order printed (\<open>messages.reverse()\<close>). The user lookups of lines 511-529
  catch their own errors and feed only the rendering of a message; they are left out.
  An error leaves the loop at once, with what was printed so far.
\<close>

record show_state =
  totalMessagesShown :: nat
  latestTimestamps :: "(string \<times> string) list"
  shown :: "(SlackUnreadChannel \<times> SlackMessage list) list"

fun show_loop ::
  "SlackClient \<Rightarrow> SlackUnreadChannel list \<Rightarrow> show_state \<Rightarrow> show_state \<times> error option" where
  "show_loop client [] st = (st, None)"
| "show_loop client (channel # rest) st =
     (case fetch_unread client channel of
        Inl e \<Rightarrow> (st, Some e)
      | Inr messages \<Rightarrow>
          if length messages = 0 then show_loop client rest st
          else show_loop client rest
            \<lparr>totalMessagesShown = totalMessagesShown st + length messages,
             latestTimestamps =
               AList.update (chan_id channel) (latest_ts messages) (latestTimestamps st),
             shown = shown st @ [(channel, rev messages)]\<rparr>)"

text \<open>
  The loop of lines 549-555: one \<open>markConversation\<close> call for each entry of the map, a
  call that throws is caught and nothing is done about it. The result is the list of the
  calls made, each with its conversation and timestamp.
\<close>

fun mark_loop :: "SlackClient \<Rightarrow> (string \<times> string) list \<Rightarrow> (string \<times> string) list" where
  "mark_loop client [] = []"
| "mark_loop client ((channelId, latestTs) # rest) =
     (case markConversation client channelId latestTs of
        Inl err \<Rightarrow> (channelId, latestTs) # mark_loop client rest
      | Inr _ \<Rightarrow> (channelId, latestTs) # mark_loop client rest)"

text \<open>
  What the command leaves behind: the spinner and console lines, the conversations
  handed to \<open>formatUnreadSummary\<close> (without \<open>--show\<close>), the messages shown, the
  \<open>markConversation\<close> calls and the exit code.
\<close>

record unread_outcome =
  u_printed :: "event list"
  u_summary :: "SlackUnreadChannel list option"
  u_shown :: "(SlackUnreadChannel \<times> SlackMessage list) list"
  u_marked :: "(string \<times> string) list"
  u_exit :: nat

definition unread_failed :: "(SlackUnreadChannel \<times> SlackMessage list) list \<Rightarrow> error \<Rightarrow> unread_outcome" where
  "unread_failed blocks e =
     \<lparr>u_printed = [SpinnerFail ''Failed to fetch unread messages'', PrintError [] e],
      u_summary = None, u_shown = blocks, u_marked = [], u_exit = 1\<rparr>"

definition unread_show :: "SlackClient \<Rightarrow> unread_options \<Rightarrow> SlackUnreadChannel list \<Rightarrow> unread_outcome" where
  "unread_show client options unreadChannels =
     (case show_loop client unreadChannels
             \<lparr>totalMessagesShown = 0, latestTimestamps = [], shown = []\<rparr> of
        (st, Some e) \<Rightarrow> unread_failed (shown st) e
      | (st, None) \<Rightarrow>
          (let marking = (opt_markRead options \<and> length (latestTimestamps st) > 0) in
           \<lparr>u_printed =
              (if marking then
                 [SpinnerSucceed (''Marked '' @ string_of_nat (length (latestTimestamps st))
                                  @ '' conversation(s) as read'')]
               else [])
              @ (if totalMessagesShown st = 0
                 then [PrintSuccess ''All caught up! No unread messages.''] else []),
            u_summary = None,
            u_shown = shown st,
            u_marked = (if marking then mark_loop client (latestTimestamps st) else []),
            u_exit = 0\<rparr>))"

definition unread_action :: "error + SlackClient \<Rightarrow> unread_options \<Rightarrow> unread_outcome" where
  "unread_action auth options =
     (case auth of
        Inl e \<Rightarrow> unread_failed [] e
      | Inr client \<Rightarrow>
          (case getUserCounts client of
             Inl e \<Rightarrow> unread_failed [] e
           | Inr allChannels \<Rightarrow>
               (let unreadChannels = select_unread options allChannels in
                if truthy (opt_channel options) \<and> length unreadChannels = 0 then
                  (if list_ex (\<lambda>ch. Some (chan_id ch) = opt_channel options) allChannels then
                     \<lparr>u_printed = [SpinnerSucceed ''No unread messages in this channel''],
                      u_summary = None, u_shown = [], u_marked = [], u_exit = 0\<rparr>
                   else
                     \<lparr>u_printed = [SpinnerFail ''Channel not found in your conversations''],
                      u_summary = None, u_shown = [], u_marked = [], u_exit = 1\<rparr>)
                else if \<not> opt_show options then
                  \<lparr>u_printed =
                     (if length (sort_unread unreadChannels) > 0 then
                        [ConsoleLog ''Use --show to view the actual messages, or --mark-read to mark all as read.'']
                      else []),
                   u_summary = Some (sort_unread unreadChannels),
                   u_shown = [], u_marked = [], u_exit = 0\<rparr>
                else unread_show client options (sort_unread unreadChannels))))"

text \<open>
  A Slack timestamp is a decimal number of seconds written as a string: it begins with
  a digit. Such a string is never below \<open>'0'\<close> in the string order.
\<close>

definition digit_led :: "string \<Rightarrow> bool" where
  "digit_led s = (case s of [] \<Rightarrow> False | c # _ \<Rightarrow> is_digit c)"

section \<open>files download-all\<close>

text \<open>
  \<open>path.join(dir, name)\<close> is Node's; for an output directory in normal form and a name
  without separators or dot segments it is the two joined by a separator, which is how
  it is modelled. The directory is a list of the paths that exist: \<open>existsSync(p)\<close> is
  membership.
\<close>

definition join_path :: "string \<Rightarrow> string \<Rightarrow> string" where
  "join_path dir name = dir @ ''/'' @ name"

text \<open>
  \<open>fileName.includes('.') ? '.' + fileName.split('.').pop() : ''\<close> and
  \<open>fileName.includes('.') ? fileName.slice(0, fileName.lastIndexOf('.')) : fileName\<close>.
  \<open>lastIndexOf\<close> is used only on a string that contains the character.
\<close>

definition file_ext :: "string \<Rightarrow> string" where
  "file_ext fileName =
     (if str_includes fileName ''.'' then ''.'' @ last (split_on CHR ''.'' fileName) else [])"

definition lastIndexOf :: "string \<Rightarrow> char \<Rightarrow> nat" where
  "lastIndexOf s c = length s - 1 - length (takeWhile (\<lambda>x. x \<noteq> c) (rev s))"

definition name_without_ext :: "string \<Rightarrow> string" where
  "name_without_ext fileName =
     (if str_includes fileName ''.'' then take (lastIndexOf fileName CHR ''.'') fileName
      else fileName)"

definition suffixed_path :: "string \<Rightarrow> string \<Rightarrow> nat \<Rightarrow> string" where
  "suffixed_path outputDir fileName counter =
     join_path outputDir
       (name_without_ext fileName @ ''_'' @ string_of_nat counter @ file_ext fileName)"

text \<open>
  The decimal digits of a number give the number back, so two counters never give the
  same path; this is why the search below ends in a directory of finitely many paths.
\<close>

lemma of_char_digit: "n < 10 \<Longrightarrow> of_char (char_of (48 + n)) = 48 + n"
  for n :: nat
  by simp

lemma parseInt_snoc: "parseInt (s @ [c]) = 10 * parseInt s + digit_val c"
  by (simp add: parseInt_def)

lemma parseInt_string_of_nat: "parseInt (string_of_nat n) = int n"
proof (induction n rule: string_of_nat.induct)
  case (1 n)
  show ?case
  proof (cases "n < 10")
    case True
    then have "string_of_nat n = [char_of (48 + n)]"
      by (subst string_of_nat.simps) simp
    with True show ?thesis
      by (simp add: parseInt_def digit_val_def)
  next
    case False
    then have s: "string_of_nat n = string_of_nat (n div 10) @ [char_of (48 + n mod 10)]"
      by (subst string_of_nat.simps) simp
    have "n mod 10 < 10" by simp
    then have "digit_val (char_of (48 + n mod 10)) = int (n mod 10)"
      unfolding digit_val_def by (subst of_char_digit) simp_all
    with "1.IH" [OF False] s show ?thesis
      by (simp add: parseInt_snoc zmod_int zdiv_int)
  qed
qed

lemma string_of_nat_inj:
  assumes "string_of_nat m = string_of_nat n"
  shows "m = n"
proof -
  have "int m = parseInt (string_of_nat m)" by (simp only: parseInt_string_of_nat)
  also have "\<dots> = parseInt (string_of_nat n)" by (simp only: assms)
  also have "\<dots> = int n" by (simp only: parseInt_string_of_nat)
  finally show ?thesis by simp
qed

lemma suffixed_path_inj:
  assumes "suffixed_path outputDir fileName j = suffixed_path outputDir fileName k"
  shows "j = k"
proof -
  from assms have "string_of_nat j = string_of_nat k"
    by (simp add: suffixed_path_def join_path_def)
  then show ?thesis by (rule string_of_nat_inj)
qed

lemma finite_suffixed: "finite {k. suffixed_path outputDir fileName k \<in> set disk}"
proof -
  have "inj (suffixed_path outputDir fileName)"
    by (rule injI) (rule suffixed_path_inj)
  then have "finite (suffixed_path outputDir fileName -` set disk)"
    by (intro finite_vimageI) simp_all
  then show ?thesis by (simp add: vimage_def)
qed

text \<open>
  Lines 199-206: \<open>finalPath\<close> starts as the plain path, \<open>counter\<close> as 1; while the path
  exists the next suffixed path is tried.
\<close>

function find_free_path :: "string list \<Rightarrow> string \<Rightarrow> string \<Rightarrow> string \<Rightarrow> nat \<Rightarrow> string" where
  "find_free_path disk outputDir fileName finalPath counter =
     (if finalPath \<in> set disk
      then find_free_path disk outputDir fileName
             (suffixed_path outputDir fileName counter) (counter + 1)
      else finalPath)"
  by pat_completeness auto
termination
proof (relation "measure (\<lambda>(disk, outputDir, fileName, finalPath, counter).
    card {k. counter \<le> k \<and> suffixed_path outputDir fileName k \<in> set disk}
    + (if finalPath \<in> set disk then 1 else 0))")
  show "wf (measure (\<lambda>(disk, outputDir, fileName, finalPath, counter).
    card {k. counter \<le> k \<and> suffixed_path outputDir fileName k \<in> set disk}
    + (if finalPath \<in> set disk then 1 else 0)))"
    by simp
next
  fix disk :: "string list" and outputDir fileName finalPath :: string and counter :: nat
  assume "finalPath \<in> set disk"
  let ?S = "\<lambda>c. {k. c \<le> k \<and> suffixed_path outputDir fileName k \<in> set disk}"
  have fin: "finite (?S counter)"
    using finite_suffixed [of outputDir fileName disk] by (rule rev_finite_subset) auto
  have "card (?S (counter + 1))
          + (if suffixed_path outputDir fileName counter \<in> set disk then 1 else 0)
        = card (?S counter)"
  proof (cases "suffixed_path outputDir fileName counter \<in> set disk")
    case True
    then have "?S counter = insert counter (?S (counter + 1))" by (auto simp: le_Suc_eq)
    moreover have "counter \<notin> ?S (counter + 1)" by simp
    moreover have "finite (?S (counter + 1))" using fin by (rule rev_finite_subset) auto
    ultimately show ?thesis using True by simp
  next
    case False
    then have "?S counter = ?S (counter + 1)"
      by (auto simp: le_Suc_eq) (metis Suc_leI le_neq_implies_less)
    with False show ?thesis by simp
  qed
  with \<open>finalPath \<in> set disk\<close>
  show "((disk, outputDir, fileName, suffixed_path outputDir fileName counter, counter + 1),
         (disk, outputDir, fileName, finalPath, counter))
        \<in> measure (\<lambda>(disk, outputDir, fileName, finalPath, counter).
            card {k. counter \<le> k \<and> suffixed_path outputDir fileName k \<in> set disk}
            + (if finalPath \<in> set disk then 1 else 0))"
    by simp
qed

declare find_free_path.simps [simp del]

text \<open>
  The paths the search tries for a file name, in order: the plain path, then the
  suffixed paths from counter 1 on.
\<close>

definition candidate :: "string \<Rightarrow> string \<Rightarrow> nat \<Rightarrow> string" where
  "candidate outputDir fileName k =
     (if k = 0 then join_path outputDir fileName else suffixed_path outputDir fileName k)"

text \<open>
  \<open>file.url_private_download || file.url_private\<close> and
  \<open>file.name || `${file.id}.${file.filetype || 'bin'}`\<close>.
\<close>

definition download_url :: "SlackFile \<Rightarrow> string option" where
  "download_url file = js_or (url_private_download file) (url_private file)"

definition file_name_of :: "SlackFile \<Rightarrow> string" where
  "file_name_of file =
     or_else (file_name file) (file_id file @ ''.'' @ or_else (filetype file) ''bin'')"

text \<open>
  A file maps to a name when the loop takes it as far as the choice of a path (it has a
  URL and is not deleted) and the name is the one the path is made from.
\<close>

definition maps_to :: "string \<Rightarrow> SlackFile \<Rightarrow> bool" where
  "maps_to name file =
     (truthy (download_url file) \<and> mode file \<noteq> Some ''tombstone'' \<and> file_name_of file = name)"

text \<open>
  The state of the loop: the three counters, the directory, the URLs handed to
  \<open>fetchFileBinary\<close> so far, and the lines printed.
\<close>

record download_state =
  downloadedCount :: nat
  failedCount :: nat
  skippedCount :: nat
  disk :: "string list"
  fetched :: "string list"
  dl_printed :: "event list"

text \<open>
  The body of the loop for one file (lines 182-218). \<open>writeFile p\<close> is the error
  \<open>writeFileSync\<close> throws on path \<open>p\<close>, if any; a file written exists from then on. The
  fetch and the write are inside one try block: either failure counts the file as failed.
\<close>

definition download_file ::
  "SlackClient \<Rightarrow> (string \<Rightarrow> error option) \<Rightarrow> string \<Rightarrow> download_state \<Rightarrow> SlackFile
     \<Rightarrow> download_state" where
  "download_file client writeFile outputDir st file =
     (let downloadUrl = download_url file in
      if \<not> truthy downloadUrl then
        st\<lparr>skippedCount := skippedCount st + 1,
           dl_printed := dl_printed st @
             [PrintWarning (''Skipping '' @ or_else (file_name file) (file_id file)
                            @ '': No download URL available'')]\<rparr>
      else if mode file = Some ''tombstone'' then
        st\<lparr>skippedCount := skippedCount st + 1\<rparr>
      else
        (let fileName = file_name_of file;
             outputPath = join_path outputDir fileName;
             finalPath = find_free_path (disk st) outputDir fileName outputPath 1
         in case fetchFileBinary client (or_else downloadUrl []) of
              Inl e \<Rightarrow>
                st\<lparr>fetched := fetched st @ [or_else downloadUrl []],
                   failedCount := failedCount st + 1,
                   dl_printed := dl_printed st @ [DownloadFailed fileName e]\<rparr>
            | Inr byteLength \<Rightarrow>
                (case writeFile finalPath of
                   Some e \<Rightarrow>
                     st\<lparr>fetched := fetched st @ [or_else downloadUrl []],
                        failedCount := failedCount st + 1,
                        dl_printed := dl_printed st @ [DownloadFailed fileName e]\<rparr>
                 | None \<Rightarrow>
                     st\<lparr>fetched := fetched st @ [or_else downloadUrl []],
                        disk := finalPath # disk st,
                        downloadedCount := downloadedCount st + 1,
                        dl_printed := dl_printed st @ [Downloaded finalPath byteLength]\<rparr>)))"

fun download_loop ::
  "SlackClient \<Rightarrow> (string \<Rightarrow> error option) \<Rightarrow> string \<Rightarrow> SlackFile list \<Rightarrow> download_state
     \<Rightarrow> download_state" where
  "download_loop client writeFile outputDir [] st = st"
| "download_loop client writeFile outputDir (file # rest) st =
     download_loop client writeFile outputDir rest
       (download_file client writeFile outputDir st file)"

text \<open>
  The command: the output directory is created when it does not exist (\<open>mkdirSync\<close> is
  taken to succeed), the listing is fetched, and after the loop the three counts are
  reported. The exit code is 1 only when the client or the listing fails.
\<close>

record download_options =
  dl_channel :: string
  dl_output :: string
  dl_types :: "string option"
  dl_count :: string

record download_outcome =
  final :: download_state
  dl_exit :: nat

definition download_all_action ::
  "error + SlackClient \<Rightarrow> (string \<Rightarrow> error option) \<Rightarrow> string list \<Rightarrow> download_options
     \<Rightarrow> download_outcome" where
  "download_all_action auth writeFile disk0 options =
     (let start = \<lparr>downloadedCount = 0, failedCount = 0, skippedCount = 0, disk = disk0,
                   fetched = [], dl_printed = []\<rparr>
      in case auth of
        Inl e \<Rightarrow>
          \<lparr>final = start\<lparr>dl_printed := [SpinnerFail ''Failed to download files'', PrintError [] e]\<rparr>,
           dl_exit = 1\<rparr>
      | Inr client \<Rightarrow>
          (let outputDir = dl_output options;
               made = start\<lparr>disk := (if outputDir \<in> set disk0 then disk0 else outputDir # disk0)\<rparr>
           in case listFiles client (dl_channel options) (dl_types options) (dl_count options) of
                Inl e \<Rightarrow>
                  \<lparr>final = made\<lparr>dl_printed :=
                              [SpinnerFail ''Failed to download files'', PrintError [] e]\<rparr>,
                   dl_exit = 1\<rparr>
              | Inr fileList \<Rightarrow>
                  if length fileList = 0 then
                    \<lparr>final = made\<lparr>dl_printed := [SpinnerWarn ''No files found in this channel'']\<rparr>,
                     dl_exit = 0\<rparr>
                  else
                    (let st = download_loop client writeFile outputDir fileList
                                (made\<lparr>dl_printed :=
                                   [SpinnerSucceed (''Found '' @ string_of_nat (length fileList)
                                                    @ '' files to download'')]\<rparr>)
                     in \<lparr>final = st\<lparr>dl_printed := dl_printed st
                            @ [ConsoleLog [],
                               PrintSuccess (''Downloaded '' @ string_of_nat (downloadedCount st)
                                             @ '' files to '' @ outputDir)]
                            @ (if failedCount st > 0 then
                                 [PrintWarning (string_of_nat (failedCount st)
                                                @ '' files failed to download'')]
                               else [])
                            @ (if skippedCount st > 0 then
                                 [PrintInfo (string_of_nat (skippedCount st)
                                             @ '' files skipped (no URL or deleted)'')]
                               else [])\<rparr>,
                         dl_exit = 0\<rparr>)))"

section \<open>Clients and data of the scenarios\<close>

text \<open>A client whose every operation succeeds, and one whose every operation throws.\<close>


definition ok_client :: SlackClient where
  "ok_client =
     \<lparr>openConversation = (\<lambda>u. Inr (''D'' @ u)),
      postMessage = (\<lambda>c m t. Inr ''1700000000.000100''),
      scheduleMessage = (\<lambda>c m p t. Inr ''Q1''),
      getConversationInfo = (\<lambda>c. Inr None),
      getConversationHistory = (\<lambda>c oldest limit. Inr []),
      getConversationReplies = (\<lambda>c t. Inr []),
      markConversation = (\<lambda>c t. Inr ()),
      getUserInfo = (\<lambda>u. Inr None),
      getUserCounts = Inr [],
      listFiles = (\<lambda>c t n. Inr []),
      fetchFileContent = (\<lambda>u. Inr []),
      fetchFileBinary = (\<lambda>u. Inr 0),
      listDrafts = (\<lambda>a. Inr None),
      createDraft = (\<lambda>c t. Inr None),
      deleteDraft = (\<lambda>d. Inr ())\<rparr>"

definition down_client :: SlackClient where
  "down_client =
     \<lparr>openConversation = (\<lambda>u. Inl (Failure ''network'')),
      postMessage = (\<lambda>c m t. Inl (Failure ''network'')),
      scheduleMessage = (\<lambda>c m p t. Inl (Failure ''network'')),
      getConversationInfo = (\<lambda>c. Inl (Failure ''network'')),
      getConversationHistory = (\<lambda>c oldest limit. Inl (Failure ''network'')),
      getConversationReplies = (\<lambda>c t. Inl (Failure ''network'')),
      markConversation = (\<lambda>c t. Inl (Failure ''network'')),
      getUserInfo = (\<lambda>u. Inl (Failure ''network'')),
      getUserCounts = Inl (Failure ''network''),
      listFiles = (\<lambda>c t n. Inl (Failure ''network'')),
      fetchFileContent = (\<lambda>u. Inl (Failure ''network'')),
      fetchFileBinary = (\<lambda>u. Inl (Failure ''network'')),
      listDrafts = (\<lambda>a. Inl (Failure ''network'')),
      createDraft = (\<lambda>c t. Inl (Failure ''network'')),
      deleteDraft = (\<lambda>d. Inl (Failure ''network''))\<rparr>"

text \<open>
  The batch of the thread scenario: three messages, the first with two replies; the
  replies of its thread are the root and the two replies, oldest first. Every other
  fetch of replies fails.
\<close>

definition m100 :: SlackMessage where
  "m100 = SlackMessage ''100.000001'' (Some ''U1'') (Some 2) [] None None"
definition m150 :: SlackMessage where
  "m150 = SlackMessage ''150.000001'' (Some ''U2'') None [] None None"
definition m160 :: SlackMessage where
  "m160 = SlackMessage ''160.000001'' (Some ''U1'') None [] None None"
definition m200 :: SlackMessage where
  "m200 = SlackMessage ''200.000001'' (Some ''U2'') None [] None None"
definition m300 :: SlackMessage where
  "m300 = SlackMessage ''300.000001'' (Some ''U3'') (Some 0) [] None None"

definition thread_client :: SlackClient where
  "thread_client = ok_client
     \<lparr>getConversationReplies :=
        (\<lambda>c t. if t = ''100.000001'' then Inr [m100, m150, m160] else Inl (Failure ''network''))\<rparr>"

text \<open>
  Two conversations with unread messages. \<open>C1\<close> was read up to \<open>150.000001\<close> and its
  history from there on comes back with the message at the watermark itself; \<open>C2\<close> has
  no watermark. In \<open>mark_failing_client\<close> every \<open>markConversation\<close> call throws.
\<close>

definition chanA :: SlackUnreadChannel where
  "chanA = \<lparr>chan_id = ''C1'', chan_name = ''general'', unread_count = 2, is_muted = False\<rparr>"

definition chanB :: SlackUnreadChannel where
  "chanB = \<lparr>chan_id = ''C2'', chan_name = ''random'', unread_count = 5, is_muted = False\<rparr>"

definition unread_client :: SlackClient where
  "unread_client = ok_client
     \<lparr>getUserCounts := Inr [chanA, chanB],
      getConversationInfo := (\<lambda>c. if c = ''C1'' then Inr (Some ''150.000001'') else Inr None),
      getConversationHistory :=
        (\<lambda>c oldest limit.
           if c = ''C1'' then Inr [m200, m150]
           else if c = ''C2'' then Inr [m300, m160]
           else Inr [])\<rparr>"

definition mark_failing_client :: SlackClient where
  "mark_failing_client = unread_client \<lparr>markConversation := (\<lambda>c t. Inl (Failure ''network''))\<rparr>"

definition show_and_mark :: unread_options where
  "show_and_mark =
     \<lparr>opt_channel = None, opt_show = True, opt_markRead = True, opt_includeMuted = False\<rparr>"

text \<open>
  Three files with the same name, a file with another name, a file whose name is the
  first suffixed name of theirs, a deleted file, a client whose download of the first
  file fails, and the state at the start of the loop for a given directory.
\<close>

definition fileA1 :: SlackFile where
  "fileA1 = SlackFile ''F1'' (Some ''a.txt'') (Some ''text'') (Some ''https://files/F1'') None None None None"

definition fileA2 :: SlackFile where
  "fileA2 = SlackFile ''F2'' (Some ''a.txt'') (Some ''text'') (Some ''https://files/F2'') None None None None"

definition fileA3 :: SlackFile where
  "fileA3 = SlackFile ''F3'' (Some ''a.txt'') (Some ''text'') None (Some ''https://files/F3'') None None None"

definition fileB :: SlackFile where
  "fileB = SlackFile ''F4'' (Some ''b.txt'') (Some ''text'') (Some ''https://files/F4'') None None None None"

definition fileS :: SlackFile where
  "fileS = SlackFile ''F5'' (Some ''a_1.txt'') (Some ''text'') (Some ''https://files/F5'') None None None None"

definition fileT :: SlackFile where
  "fileT = SlackFile ''F9'' (Some ''gone.txt'') None (Some ''https://files/F9'') None
             (Some ''tombstone'') None None"

definition flaky_client :: SlackClient where
  "flaky_client = ok_client
     \<lparr>fetchFileBinary :=
        (\<lambda>u. if u = ''https://files/F1'' then Inl (Failure ''network'') else Inr 10)\<rparr>"

definition start_state :: "string list \<Rightarrow> download_state" where
  "start_state disk0 =
     \<lparr>downloadedCount = 0, failedCount = 0, skippedCount = 0, disk = disk0,
      fetched = [], dl_printed = []\<rparr>"

text \<open>
  Two messages, each with one transcribed video; the transcript of the first cannot be
  fetched, the second is the payload of the scenario. And a thread parent whose replies
  cannot be fetched by \<open>thread_client\<close>.
\<close>

definition fileV1 :: SlackFile where
  "fileV1 = SlackFile ''V1'' (Some ''one.mp4'') (Some ''mp4'') (Some ''https://files/V1'') None None
              (Some ''complete'') (Some ''https://files/V1.vtt'')"

definition fileV2 :: SlackFile where
  "fileV2 = SlackFile ''V2'' (Some ''two.mp4'') (Some ''mp4'') (Some ''https://files/V2'') None None
              (Some ''complete'') (Some ''https://files/V2.vtt'')"

definition mv1 :: SlackMessage where
  "mv1 = SlackMessage ''400.000001'' (Some ''U1'') None [fileV1] None None"

definition mv2 :: SlackMessage where
  "mv2 = SlackMessage ''500.000001'' (Some ''U2'') None [fileV2] None None"

definition transcript_client :: SlackClient where
  "transcript_client = ok_client
     \<lparr>fetchFileContent :=
        (\<lambda>u. if u = ''https://files/V1.vtt'' then Inl (Failure ''network'')
             else Inr (units ''WEBVTT\<newline>\<newline>1\<newline>00:00:00.000 --> 00:00:02.000\<newline>Hello <b>world</b>\<newline>''))\<rparr>"

definition m250 :: SlackMessage where
  "m250 = SlackMessage ''250.000001'' (Some ''U2'') (Some 1) [] None None"

section \<open>Recipients of messages send and messages schedule\<close>

lemma startsWith_U: "startsWith r ''U'' = (\<exists>rest. r = CHR ''U'' # rest)"
  by (cases r) (auto simp: startsWith_def)

lemma calls_send_post:
  "calls (send_post client opts cs ch) = cs @ [PostMessage ch (message opts) (threadTs opts)]"
  by (simp add: send_post_def split: sum.split)

lemma calls_schedule_post:
  "calls (schedule_post client opts postAt cs ch) =
     cs @ [ScheduleMessage ch (message opts) postAt (threadTs opts)]"
  by (simp add: schedule_post_def schedule_failed_def split: sum.split)

lemma schedule_action_valid:
  assumes "parse_time dateParse (time opts) = Inr postAt"
    and "dateNow div 1000 < postAt" and "postAt \<le> dateNow div 1000 + 10368000"
  shows "schedule_action (Inr client) dateParse dateNow opts =
     (if startsWith (recipientId opts) ''U'' then
        (case openConversation client (recipientId opts) of
           Inl e \<Rightarrow> schedule_failed [OpenConversation (recipientId opts)] e
         | Inr channelId \<Rightarrow>
             schedule_post client opts postAt [OpenConversation (recipientId opts)] channelId)
      else schedule_post client opts postAt [] (recipientId opts))"
  using assms by (simp add: schedule_action_def Let_def)

text \<open>
  C10. In \<open>messages send\<close> and \<open>messages schedule\<close> the recipient is a user exactly when
  its id begins with the character U. Then the direct-message conversation is opened
  first, and the message is posted (or scheduled) to the conversation id that call
  returned; nothing is posted when the open call fails. Any other recipient id goes to
  the post (or schedule) call as the channel id, and no conversation is opened.
\<close>

theorem recipient_routing:
  assumes "parse_time dateParse (time opts) = Inr postAt"
    and "dateNow div 1000 < postAt" and "postAt \<le> dateNow div 1000 + 10368000"
  shows "(startsWith (recipientId opts) ''U'' \<longleftrightarrow> (\<exists>rest. recipientId opts = CHR ''U'' # rest))
    \<and> calls (send_action (Inr client) opts) =
        (if startsWith (recipientId opts) ''U'' then
           (case openConversation client (recipientId opts) of
              Inl e \<Rightarrow> [OpenConversation (recipientId opts)]
            | Inr channelId \<Rightarrow>
                [OpenConversation (recipientId opts),
                 PostMessage channelId (message opts) (threadTs opts)])
         else [PostMessage (recipientId opts) (message opts) (threadTs opts)])
    \<and> calls (schedule_action (Inr client) dateParse dateNow opts) =
        (if startsWith (recipientId opts) ''U'' then
           (case openConversation client (recipientId opts) of
              Inl e \<Rightarrow> [OpenConversation (recipientId opts)]
            | Inr channelId \<Rightarrow>
                [OpenConversation (recipientId opts),
                 ScheduleMessage channelId (message opts) postAt (threadTs opts)])
         else [ScheduleMessage (recipientId opts) (message opts) postAt (threadTs opts)])"
proof (intro conjI)
  show "startsWith (recipientId opts) ''U'' \<longleftrightarrow> (\<exists>rest. recipientId opts = CHR ''U'' # rest)"
    by (rule startsWith_U)
next
  show "calls (send_action (Inr client) opts) =
        (if startsWith (recipientId opts) ''U'' then
           (case openConversation client (recipientId opts) of
              Inl e \<Rightarrow> [OpenConversation (recipientId opts)]
            | Inr channelId \<Rightarrow>
                [OpenConversation (recipientId opts),
                 PostMessage channelId (message opts) (threadTs opts)])
         else [PostMessage (recipientId opts) (message opts) (threadTs opts)])"
    by (simp add: send_action_def calls_send_post split: sum.split)
next
  show "calls (schedule_action (Inr client) dateParse dateNow opts) =
        (if startsWith (recipientId opts) ''U'' then
           (case openConversation client (recipientId opts) of
              Inl e \<Rightarrow> [OpenConversation (recipientId opts)]
            | Inr channelId \<Rightarrow>
                [OpenConversation (recipientId opts),
                 ScheduleMessage channelId (message opts) postAt (threadTs opts)])
         else [ScheduleMessage (recipientId opts) (message opts) postAt (threadTs opts)])"
    unfolding schedule_action_valid [OF assms]
    by (simp add: calls_schedule_post schedule_failed_def split: sum.split)
qed

theorem recipient_routing_witness:
  "calls (send_action (Inr ok_client)
      \<lparr>recipientId = ''U42'', message = ''hi'', time = ''2000'', threadTs = None\<rparr>) =
     [OpenConversation ''U42'', PostMessage ''DU42'' ''hi'' None]
   \<and> calls (schedule_action (Inr ok_client) (\<lambda>s. None) 1000000
      \<lparr>recipientId = ''C42'', message = ''hi'', time = ''2000'', threadTs = None\<rparr>) =
     [ScheduleMessage ''C42'' ''hi'' 2000 None]"
proof -
  have p: "parse_time (\<lambda>s. None)
      (time \<lparr>recipientId = ''C42'', message = ''hi'', time = ''2000'', threadTs = None\<rparr>) = Inr 2000"
    by (simp add: parse_time_def all_digits_def is_digit_def parseInt_def digit_val_def)
  have q: "parse_time (\<lambda>s. None)
      (time \<lparr>recipientId = ''U42'', message = ''hi'', time = ''2000'', threadTs = None\<rparr>) = Inr 2000"
    by (simp add: parse_time_def all_digits_def is_digit_def parseInt_def digit_val_def)
  from recipient_routing [OF p, of 1000000 ok_client]
       recipient_routing [OF q, of 1000000 ok_client]
  show ?thesis by (simp add: startsWith_def ok_client_def)
qed

section \<open>Bounds on the time of messages schedule\<close>

text \<open>
  C5. With the client obtained and the time resolved to \<open>postAt\<close> (Unix seconds),
  \<open>messages schedule\<close> fails before any remote call, with exit code 1, when
  \<open>postAt \<le> now\<close> (the time is not in the future) or \<open>postAt > now + 120 days\<close>; for
  \<open>now < postAt \<le> now + 120 days\<close> no validation error is raised and the command goes on
  to its remote calls: the schedule call with this \<open>postAt\<close>, after the call that opens the
  direct-message conversation when the recipient is a user.
\<close>

theorem schedule_bounds:
  assumes "parse_time dateParse (time opts) = Inr postAt"
    and "now = dateNow div 1000"
  shows "(postAt \<le> now \<longrightarrow>
            schedule_action (Inr client) dateParse dateNow opts =
              \<lparr>calls = [],
               printed = [SpinnerFail ''Failed to schedule message'', PrintError [] NotInFuture],
               exit_code = 1\<rparr>)
    \<and> (postAt > now + 120 * 24 * 60 * 60 \<longrightarrow>
            schedule_action (Inr client) dateParse dateNow opts =
              \<lparr>calls = [],
               printed = [SpinnerFail ''Failed to schedule message'', PrintError [] TooFarInFuture],
               exit_code = 1\<rparr>)
    \<and> (now < postAt \<and> postAt \<le> now + 120 * 24 * 60 * 60 \<longrightarrow>
            calls (schedule_action (Inr client) dateParse dateNow opts) =
              (if startsWith (recipientId opts) ''U'' then
                 (case openConversation client (recipientId opts) of
                    Inl e \<Rightarrow> [OpenConversation (recipientId opts)]
                  | Inr channelId \<Rightarrow>
                      [OpenConversation (recipientId opts),
                       ScheduleMessage channelId (message opts) postAt (threadTs opts)])
               else [ScheduleMessage (recipientId opts) (message opts) postAt (threadTs opts)]))"
proof (intro conjI impI)
  assume "postAt \<le> now"
  with assms show "schedule_action (Inr client) dateParse dateNow opts =
      \<lparr>calls = [],
       printed = [SpinnerFail ''Failed to schedule message'', PrintError [] NotInFuture],
       exit_code = 1\<rparr>"
    by (simp add: schedule_action_def schedule_failed_def Let_def)
next
  assume "postAt > now + 120 * 24 * 60 * 60"
  with assms show "schedule_action (Inr client) dateParse dateNow opts =
      \<lparr>calls = [],
       printed = [SpinnerFail ''Failed to schedule message'', PrintError [] TooFarInFuture],
       exit_code = 1\<rparr>"
    by (simp add: schedule_action_def schedule_failed_def Let_def)
next
  assume "now < postAt \<and> postAt \<le> now + 120 * 24 * 60 * 60"
  with assms have v: "dateNow div 1000 < postAt" "postAt \<le> dateNow div 1000 + 10368000"
    by simp_all
  show "calls (schedule_action (Inr client) dateParse dateNow opts) =
      (if startsWith (recipientId opts) ''U'' then
         (case openConversation client (recipientId opts) of
            Inl e \<Rightarrow> [OpenConversation (recipientId opts)]
          | Inr channelId \<Rightarrow>
              [OpenConversation (recipientId opts),
               ScheduleMessage channelId (message opts) postAt (threadTs opts)])
       else [ScheduleMessage (recipientId opts) (message opts) postAt (threadTs opts)])"
    unfolding schedule_action_valid [OF assms(1) v]
    by (simp add: calls_schedule_post schedule_failed_def split: sum.split)
qed

text \<open>
  With \<open>Date.now()\<close> at 1000 s: scheduling at 1000 s and at 1000 s + 120 days + 1 s fails
  without a remote call, scheduling one hour ahead reaches the schedule call.
\<close>

theorem schedule_bounds_witness:
  "schedule_action (Inr ok_client) (\<lambda>s. None) 1000000
      \<lparr>recipientId = ''C42'', message = ''hi'', time = ''1000'', threadTs = None\<rparr> =
     \<lparr>calls = [],
      printed = [SpinnerFail ''Failed to schedule message'', PrintError [] NotInFuture],
      exit_code = 1\<rparr>
   \<and> schedule_action (Inr ok_client) (\<lambda>s. None) 1000000
      \<lparr>recipientId = ''C42'', message = ''hi'', time = ''10369001'', threadTs = None\<rparr> =
     \<lparr>calls = [],
      printed = [SpinnerFail ''Failed to schedule message'', PrintError [] TooFarInFuture],
      exit_code = 1\<rparr>
   \<and> calls (schedule_action (Inr ok_client) (\<lambda>s. None) 1000000
      \<lparr>recipientId = ''C42'', message = ''hi'', time = ''4600'', threadTs = None\<rparr>) =
     [ScheduleMessage ''C42'' ''hi'' 4600 None]"
proof -
  have p1: "parse_time (\<lambda>s. None)
      (time \<lparr>recipientId = ''C42'', message = ''hi'', time = ''1000'', threadTs = None\<rparr>) = Inr 1000"
    by (simp add: parse_time_def all_digits_def is_digit_def parseInt_def digit_val_def)
  have p2: "parse_time (\<lambda>s. None)
      (time \<lparr>recipientId = ''C42'', message = ''hi'', time = ''10369001'', threadTs = None\<rparr>)
        = Inr 10369001"
    by (simp add: parse_time_def all_digits_def is_digit_def parseInt_def digit_val_def)
  have p3: "parse_time (\<lambda>s. None)
      (time \<lparr>recipientId = ''C42'', message = ''hi'', time = ''4600'', threadTs = None\<rparr>) = Inr 4600"
    by (simp add: parse_time_def all_digits_def is_digit_def parseInt_def digit_val_def)
  have n: "(1000::int) = 1000000 div 1000" by simp
  from schedule_bounds [OF p1 n, of ok_client] schedule_bounds [OF p2 n, of ok_client]
       schedule_bounds [OF p3 n, of ok_client]
  show ?thesis by (simp add: startsWith_def)
qed

section \<open>Exit codes of the drafts commands\<close>

text \<open>
  C9. Every command is to end with exit code 1 after a fatal remote error. The three
  drafts commands do not: when \<open>deleteDraft\<close> (or \<open>listDrafts\<close>, \<open>createDraft\<close>) throws,
  the command prints the error and the process ends with exit code 0, where the catch
  blocks of \<open>messages\<close>, \<open>conversations\<close> and \<open>files\<close> all call \<open>process.exit(1)\<close>.
\<close>

theorem drafts_failure_exits_zero:
  "drafts_delete_action (Inr down_client) ''Dr1'' =
     \<lparr>calls = [DeleteDraft ''Dr1''],
      printed = [PrintErrorText ''Failed to delete draft'', PrintError ''Error: '' (Failure ''network'')],
      exit_code = 0\<rparr>
   \<and> exit_code (drafts_list_action (Inr down_client) False) = 0
   \<and> exit_code (drafts_create_action (Inr down_client) ''C1'' ''hello'') = 0
   \<and> exit_code (send_action (Inr down_client)
        \<lparr>recipientId = ''C1'', message = ''hello'', time = [], threadTs = None\<rparr>) = 1"
  by (simp add: drafts_delete_action_def drafts_list_action_def drafts_create_action_def
      send_action_def send_post_def startsWith_def down_client_def)

section \<open>The text of a WebVTT payload\<close>

lemma startsWith_iff: "startsWith s p \<longleftrightarrow> (\<exists>r. s = p @ r)"
proof
  assume "startsWith s p"
  then have "s = p @ drop (length p) s"
    by (metis append_take_drop_id startsWith_def)
  then show "\<exists>r. s = p @ r" ..
next
  assume "\<exists>r. s = p @ r"
  then show "startsWith s p" by (auto simp: startsWith_def)
qed

lemma str_includes_iff: "str_includes s p \<longleftrightarrow> (\<exists>a b. s = a @ p @ b)"
proof (induction s)
  case Nil
  then show ?case by auto
next
  case (Cons c cs)
  show ?case
  proof
    assume "str_includes (c # cs) p"
    then consider "startsWith (c # cs) p" | "str_includes cs p" by auto
    then show "\<exists>a b. c # cs = a @ p @ b"
    proof cases
      case 1
      then obtain r where "c # cs = p @ r" by (auto simp: startsWith_iff)
      then have "c # cs = [] @ p @ r" by simp
      then show ?thesis by blast
    next
      case 2
      with Cons.IH obtain a b where "cs = a @ p @ b" by auto
      then have "c # cs = (c # a) @ p @ b" by simp
      then show ?thesis by blast
    qed
  next
    assume "\<exists>a b. c # cs = a @ p @ b"
    then obtain a b where ab: "c # cs = a @ p @ b" by auto
    show "str_includes (c # cs) p"
    proof (cases a)
      case Nil
      with ab have "startsWith (c # cs) p" by (auto simp: startsWith_iff)
      then show ?thesis by simp
    next
      case (Cons x a')
      with ab have "cs = a' @ p @ b" by simp
      with Cons.IH have "str_includes cs p" by blast
      then show ?thesis by simp
    qed
  qed
qed



lemma split_on_not_Nil: "split_on d s \<noteq> []"
  by (induction s) (auto split: list.split)







lemmas vtt_eval = parseVttToText_def vtt_keep_def js_trim_def is_space_def startsWith_def
  all_digit_units_def is_digit_unit_def units_def code_unit_def LT_def GT_def LF_def



section \<open>Thread expansion\<close>

lemma thread_replies_set: "thread_replies (set_thread_replies rs m) = Some rs"
  by (cases m) simp

lemma ts_set_thread_replies: "ts (set_thread_replies rs m) = ts m"
  by (cases m) simp

lemma fetchThread_map:
  "fst (fetchThreadRepliesForMessages client channelId msgs users) =
     map (expand_thread client channelId) msgs"
proof (induction msgs arbitrary: users)
  case Nil
  show ?case by simp
next
  case (Cons m ms)
  show ?case
  proof (cases "(case reply_count m of None \<Rightarrow> 0 | Some n \<Rightarrow> n) > 0")
    case False
    obtain a b c where r: "fetchThreadRepliesForMessages client channelId ms users = (a, b, c)"
      by (rule prod_cases3)
    with Cons.IH [of users] have "a = map (expand_thread client channelId) ms" by simp
    with False r show ?thesis by (simp add: expand_thread_def)
  next
    case True
    show ?thesis
    proof (cases "getConversationReplies client channelId (ts m)")
      case (Inl e)
      obtain a b c where r: "fetchThreadRepliesForMessages client channelId ms users = (a, b, c)"
        by (rule prod_cases3)
      with Cons.IH [of users] have "a = map (expand_thread client channelId) ms" by simp
      with True Inl r show ?thesis by (simp add: expand_thread_def)
    next
      case (Inr replies)
      obtain us lg where u: "reply_users client (drop 1 replies) users [] = (us, lg)"
        by (rule prod.exhaust)
      obtain a b c where r: "fetchThreadRepliesForMessages client channelId ms us = (a, b, c)"
        by (rule prod_cases3)
      with Cons.IH [of us] have "a = map (expand_thread client channelId) ms" by simp
      with True Inr u r show ?thesis by (simp add: expand_thread_def)
    qed
  qed
qed

text \<open>
  C8. For every message of the batch whose \<open>reply_count\<close> exceeds 0 and whose replies the
  remote returns, thread expansion stores the returned list without its first entry (the
  thread root), in the order returned, as the \<open>thread_replies\<close> of that message; the
  batch keeps its length and the message its \<open>ts\<close>. Nothing is assumed of the other
  messages of the batch.
\<close>

theorem thread_replies_stored:
  assumes "i < length msgs"
    and "reply_count (msgs ! i) = Some n" and "n > 0"
    and "getConversationReplies client channelId (ts (msgs ! i)) = Inr replies"
  shows "length (fst (fetchThreadRepliesForMessages client channelId msgs users)) = length msgs
    \<and> thread_replies (fst (fetchThreadRepliesForMessages client channelId msgs users) ! i)
        = Some (drop 1 replies)
    \<and> ts (fst (fetchThreadRepliesForMessages client channelId msgs users) ! i) = ts (msgs ! i)
    \<and> (replies \<noteq> [] \<longrightarrow> replies = hd replies # drop 1 replies)"
proof -
  have "fst (fetchThreadRepliesForMessages client channelId msgs users) ! i =
        set_thread_replies (drop 1 replies) (msgs ! i)"
    using assms by (simp add: fetchThread_map expand_thread_def)
  then show ?thesis
    by (cases replies) (simp_all add: fetchThread_map thread_replies_set ts_set_thread_replies)
qed

text \<open>
  The scenario: the first of three messages has \<open>reply_count\<close> 2, its thread comes back
  as the root and two replies; \<open>thread_replies\<close> is the two replies, in that order, and
  the other two messages are as they were.
\<close>

theorem thread_replies_stored_witness:
  "thread_replies (fst (fetchThreadRepliesForMessages thread_client ''C1'' [m100, m200, m300] Map.empty) ! 0)
     = Some [m150, m160]
   \<and> fst (fetchThreadRepliesForMessages thread_client ''C1'' [m100, m200, m300] Map.empty)
     = [set_thread_replies [m150, m160] m100, m200, m300]"
proof -
  have r: "getConversationReplies thread_client ''C1'' (ts ([m100, m200, m300] ! 0))
             = Inr [m100, m150, m160]"
    by (simp add: thread_client_def m100_def)
  have c: "reply_count ([m100, m200, m300] ! 0) = Some 2"
    by (simp add: m100_def)
  from thread_replies_stored [of 0 "[m100, m200, m300]" 2 thread_client "''C1''" "[m100, m150, m160]" Map.empty, OF _ c _ r]
  show ?thesis
    by (simp add: thread_client_def ok_client_def m100_def m150_def m160_def m200_def m300_def)
qed

section \<open>Unread messages and the read watermark\<close>

lemma digit_led_ge: "digit_led s \<Longrightarrow> ''0'' \<le> s"
  by (cases s) (auto simp: digit_led_def is_digit_def)

lemma update_fresh: "k \<notin> fst ` set al \<Longrightarrow> AList.update k v al = al @ [(k, v)]"
  by (induction al) auto

lemma latest_ts_fold:
  "foldl (\<lambda>mx msg. if ts msg > mx then ts msg else mx) a xs = Max (insert a (ts ` set xs))"
proof (induction xs arbitrary: a)
  case Nil
  show ?case by simp
next
  case (Cons x xs)
  have "(if ts x > a then ts x else a) = max a (ts x)" by (auto simp: max_def)
  then have "foldl (\<lambda>mx msg. if ts msg > mx then ts msg else mx) a (x # xs)
             = Max (insert (max a (ts x)) (ts ` set xs))"
    using Cons.IH [of "max a (ts x)"] by simp
  also have "\<dots> = Max (insert a (insert (ts x) (ts ` set xs)))"
  proof (cases "ts ` set xs = {}")
    case True
    then show ?thesis by simp
  next
    case False
    then show ?thesis by (simp add: max.assoc)
  qed
  finally show ?case by simp
qed

lemma latest_ts_Max:
  assumes "xs \<noteq> []" and "\<forall>m \<in> set xs. ''0'' \<le> ts m"
  shows "latest_ts xs = Max (ts ` set xs)"
proof -
  have ne: "ts ` set xs \<noteq> {}" using assms(1) by simp
  obtain m where "m \<in> set xs" using assms(1) by (cases xs) auto
  with assms(2) have "''0'' \<le> ts m" "ts m \<in> ts ` set xs" by auto
  then have "''0'' \<le> Max (ts ` set xs)" by (meson List.finite_set Max_ge_iff finite_imageI ne)
  then show ?thesis
    unfolding latest_ts_def latest_ts_fold using ne by (simp add: max_def)
qed

lemma show_loop_shown:
  "show_loop client chans st = (st', err) \<Longrightarrow>
     \<exists>blocks. shown st' = shown st @ blocks
       \<and> (\<forall>(ch, ms) \<in> set blocks. ch \<in> set chans \<and> ms \<noteq> [] \<and> fetch_unread client ch = Inr (rev ms))"
proof (induction chans arbitrary: st)
  case Nil
  then show ?case by simp
next
  case (Cons c cs)
  show ?case
  proof (cases "fetch_unread client c")
    case (Inl e)
    with Cons.prems show ?thesis by simp
  next
    case (Inr msgs)
    show ?thesis
    proof (cases "msgs = []")
      case True
      with Inr Cons.prems have "show_loop client cs st = (st', err)" by simp
      from Cons.IH [OF this] show ?thesis by auto
    next
      case False
      define st2 where "st2 = \<lparr>totalMessagesShown = totalMessagesShown st + length msgs,
             latestTimestamps = AList.update (chan_id c) (latest_ts msgs) (latestTimestamps st),
             shown = shown st @ [(c, rev msgs)]\<rparr>"
      with False Inr Cons.prems have "show_loop client cs st2 = (st', err)" by simp
      from Cons.IH [OF this] obtain blocks where
        b: "shown st' = shown st2 @ blocks"
           "\<forall>(ch, ms) \<in> set blocks. ch \<in> set cs \<and> ms \<noteq> [] \<and> fetch_unread client ch = Inr (rev ms)"
        by auto
      have "shown st' = shown st @ ((c, rev msgs) # blocks)"
        using b(1) by (simp add: st2_def)
      moreover have "\<forall>(ch, ms) \<in> set ((c, rev msgs) # blocks).
          ch \<in> set (c # cs) \<and> ms \<noteq> [] \<and> fetch_unread client ch = Inr (rev ms)"
        using b(2) False Inr by auto
      ultimately show ?thesis by blast
    qed
  qed
qed

lemma show_loop_complete:
  "show_loop client chans st = (st', None) \<Longrightarrow> ch \<in> set chans \<Longrightarrow>
     fetch_unread client ch = Inr msgs \<Longrightarrow> msgs \<noteq> [] \<Longrightarrow> (ch, rev msgs) \<in> set (shown st')"
proof (induction chans arbitrary: st)
  case Nil
  then show ?case by simp
next
  case (Cons c cs)
  show ?case
  proof (cases "fetch_unread client c")
    case (Inl e)
    with Cons.prems show ?thesis by simp
  next
    case (Inr ms)
    show ?thesis
    proof (cases "ms = []")
      case True
      with Inr Cons.prems have l: "show_loop client cs st = (st', None)" and "ch \<in> set cs"
        by auto
      with Cons.IH [OF l] Cons.prems show ?thesis by simp
    next
      case False
      define st2 where "st2 = \<lparr>totalMessagesShown = totalMessagesShown st + length ms,
             latestTimestamps = AList.update (chan_id c) (latest_ts ms) (latestTimestamps st),
             shown = shown st @ [(c, rev ms)]\<rparr>"
      with False Inr Cons.prems have l: "show_loop client cs st2 = (st', None)" by simp
      show ?thesis
      proof (cases "ch = c")
        case True
        with Inr Cons.prems have "ms = msgs" by simp
        moreover from show_loop_shown [OF l] obtain blocks where "shown st' = shown st2 @ blocks"
          by auto
        ultimately show ?thesis using True by (simp add: st2_def)
      next
        case False
        with Cons.prems have "ch \<in> set cs" by simp
        from Cons.IH [OF l this] Cons.prems show ?thesis by simp
      qed
    qed
  qed
qed

lemma show_loop_timestamps:
  "show_loop client chans st = (st', err) \<Longrightarrow> distinct (map chan_id chans) \<Longrightarrow>
   chan_id ` set chans \<inter> fst ` set (latestTimestamps st) = {} \<Longrightarrow>
     \<exists>blocks. shown st' = shown st @ blocks
       \<and> latestTimestamps st' =
           latestTimestamps st @ map (\<lambda>(ch, ms). (chan_id ch, latest_ts (rev ms))) blocks
       \<and> (\<forall>b \<in> set blocks. fst b \<in> set chans)
       \<and> distinct (map (\<lambda>b. chan_id (fst b)) blocks)
       \<and> totalMessagesShown st' = totalMessagesShown st + sum_list (map (\<lambda>b. length (snd b)) blocks)"
proof (induction chans arbitrary: st)
  case Nil
  then show ?case by simp
next
  case (Cons c cs)
  show ?case
  proof (cases "fetch_unread client c")
    case (Inl e)
    with Cons.prems show ?thesis by simp
  next
    case (Inr msgs)
    show ?thesis
    proof (cases "msgs = []")
      case True
      with Inr Cons.prems have l: "show_loop client cs st = (st', err)" by simp
      from Cons.prems have d: "distinct (map chan_id cs)"
        and i: "chan_id ` set cs \<inter> fst ` set (latestTimestamps st) = {}" by auto
      from Cons.IH [OF l d i] obtain blocks where
        b: "shown st' = shown st @ blocks"
           "latestTimestamps st' =
             latestTimestamps st @ map (\<lambda>(ch, ms). (chan_id ch, latest_ts (rev ms))) blocks"
           "\<forall>b \<in> set blocks. fst b \<in> set cs"
           "distinct (map (\<lambda>b. chan_id (fst b)) blocks)"
           "totalMessagesShown st' = totalMessagesShown st + sum_list (map (\<lambda>b. length (snd b)) blocks)"
        by blast
      from b(3) have "\<forall>b \<in> set blocks. fst b \<in> set (c # cs)" by simp
      with b show ?thesis by blast
    next
      case False
      define st2 where "st2 = \<lparr>totalMessagesShown = totalMessagesShown st + length msgs,
             latestTimestamps = AList.update (chan_id c) (latest_ts msgs) (latestTimestamps st),
             shown = shown st @ [(c, rev msgs)]\<rparr>"
      with False Inr Cons.prems have l: "show_loop client cs st2 = (st', err)" by simp
      from Cons.prems have fresh: "chan_id c \<notin> fst ` set (latestTimestamps st)" by auto
      then have lt2: "latestTimestamps st2 = latestTimestamps st @ [(chan_id c, latest_ts msgs)]"
        by (simp add: st2_def update_fresh)
      from Cons.prems have d: "distinct (map chan_id cs)" by simp
      have i: "chan_id ` set cs \<inter> fst ` set (latestTimestamps st2) = {}"
        using Cons.prems(2,3) by (auto simp: lt2)
      from Cons.IH [OF l d i] obtain blocks where
        b: "shown st' = shown st2 @ blocks"
           "latestTimestamps st' =
             latestTimestamps st2 @ map (\<lambda>(ch, ms). (chan_id ch, latest_ts (rev ms))) blocks"
           "\<forall>b \<in> set blocks. fst b \<in> set cs"
           "distinct (map (\<lambda>b. chan_id (fst b)) blocks)"
           "totalMessagesShown st' = totalMessagesShown st2 + sum_list (map (\<lambda>b. length (snd b)) blocks)"
        by blast
      let ?bs = "(c, rev msgs) # blocks"
      have 1: "shown st' = shown st @ ?bs" using b(1) by (simp add: st2_def)
      have 2: "latestTimestamps st' =
             latestTimestamps st @ map (\<lambda>(ch, ms). (chan_id ch, latest_ts (rev ms))) ?bs"
        using b(2) by (simp add: lt2)
      have 3: "\<forall>b \<in> set ?bs. fst b \<in> set (c # cs)" using b(3) by simp
      have "chan_id c \<notin> (\<lambda>b. chan_id (fst b)) ` set blocks"
        using b(3) Cons.prems(2) by auto
      then have 4: "distinct (map (\<lambda>b. chan_id (fst b)) ?bs)" using b(4) by simp
      have 5: "totalMessagesShown st' = totalMessagesShown st + sum_list (map (\<lambda>b. length (snd b)) ?bs)"
        using b(5) by (simp add: st2_def)
      from 1 2 3 4 5 show ?thesis by blast
    qed
  qed
qed

lemma distinct_map_insort_key:
  "distinct (map g (insort_key f x xs)) \<longleftrightarrow> g x \<notin> g ` set xs \<and> distinct (map g xs)"
  by (induction xs) (auto simp: set_insort_key)

lemma distinct_map_sort_key: "distinct (map g (sort_key f xs)) \<longleftrightarrow> distinct (map g xs)"
  by (induction xs) (auto simp: distinct_map_insort_key)

lemma distinct_select_unread:
  "distinct (map chan_id allChannels) \<Longrightarrow> distinct (map chan_id (sort_unread (select_unread options allChannels)))"
  by (simp add: sort_unread_def select_unread_def Let_def distinct_map_sort_key distinct_map_filter)

lemma mark_loop_all: "mark_loop client tss = tss"
  by (induction tss) (auto split: sum.split)

lemma fetch_unread_subset:
  assumes "fetch_unread client ch = Inr msgs"
  shows "\<exists>oldest limit history.
           getConversationHistory client (chan_id ch) oldest limit = Inr history
           \<and> set msgs \<subseteq> set history"
proof -
  from assms obtain last_read history where
    h: "getConversationHistory client (chan_id ch) (or_else last_read ''0'')
          (min (unread_count ch + 5) 100) = Inr history"
    and m: "msgs = filter (\<lambda>msg. ts msg > or_else last_read ''0'') history"
    by (auto simp: fetch_unread_def Let_def split: sum.splits)
  from m have "set msgs \<subseteq> set history" by auto
  with h show ?thesis by blast
qed

lemma u_shown_blocks:
  assumes "(ch, ms) \<in> set (u_shown (unread_action (Inr client) options))"
  shows "ms \<noteq> [] \<and> fetch_unread client ch = Inr (rev ms)"
proof -
  from assms obtain allChannels where
    s: "(ch, ms) \<in> set (u_shown (unread_show client options (sort_unread (select_unread options allChannels))))"
    by (auto simp: unread_action_def unread_failed_def Let_def split: sum.splits if_splits)
  obtain st err where l: "show_loop client (sort_unread (select_unread options allChannels))
       \<lparr>totalMessagesShown = 0, latestTimestamps = [], shown = []\<rparr> = (st, err)"
    by (rule prod.exhaust)
  with s have "(ch, ms) \<in> set (shown st)"
    by (cases err) (auto simp: unread_show_def unread_failed_def Let_def)
  with show_loop_shown [OF l] show ?thesis by auto
qed

lemmas unread_eval = unread_action_def select_unread_def sort_unread_def unread_show_def
  fetch_unread_def or_else_def latest_ts_def unread_client_def ok_client_def chanA_def chanB_def
  show_and_mark_def m150_def m160_def m200_def m300_def Let_def

text \<open>
  C2. For a conversation whose \<open>last_read\<close> watermark is \<open>T\<close> (present and not empty),
  whatever \<open>conversations unread --show\<close> prints for it is the fetched history, filtered
  to the messages with \<open>ts\<close> strictly after \<open>T\<close> (in reverse order of the fetch): no
  message with \<open>ts \<le> T\<close> is shown, whatever the remote returned. And when the command
  ends with exit code 0, a selected conversation with such messages is shown.
\<close>

theorem unread_strict_after:
  assumes "getConversationInfo client (chan_id ch) = Inr (Some T)" and "T \<noteq> []"
  shows "((ch, ms) \<in> set (u_shown (unread_action (Inr client) options)) \<longrightarrow>
            (\<exists>history. getConversationHistory client (chan_id ch) T (min (unread_count ch + 5) 100)
                         = Inr history
               \<and> ms = rev (filter (\<lambda>m. T < ts m) history)
               \<and> set ms = {m \<in> set history. T < ts m}
               \<and> (\<forall>m \<in> set ms. \<not> ts m \<le> T)))
    \<and> (opt_show options \<and> u_exit (unread_action (Inr client) options) = 0
         \<and> getUserCounts client = Inr allChannels \<and> ch \<in> set (select_unread options allChannels)
         \<and> getConversationHistory client (chan_id ch) T (min (unread_count ch + 5) 100) = Inr history
         \<and> filter (\<lambda>m. T < ts m) history \<noteq> [] \<longrightarrow>
            (ch, rev (filter (\<lambda>m. T < ts m) history))
               \<in> set (u_shown (unread_action (Inr client) options)))"
proof (intro conjI impI)
  assume "(ch, ms) \<in> set (u_shown (unread_action (Inr client) options))"
  then have f: "fetch_unread client ch = Inr (rev ms)" using u_shown_blocks by blast
  with assms obtain history where
    h: "getConversationHistory client (chan_id ch) T (min (unread_count ch + 5) 100) = Inr history"
    and r: "rev ms = filter (\<lambda>m. T < ts m) history"
    by (auto simp: fetch_unread_def or_else_def Let_def split: sum.splits)
  from r have m: "ms = rev (filter (\<lambda>m. T < ts m) history)" by (metis rev_rev_ident)
  then have "set ms = {m \<in> set history. T < ts m}" by auto
  moreover from m have "\<forall>m \<in> set ms. \<not> ts m \<le> T" by auto
  ultimately show "\<exists>history. getConversationHistory client (chan_id ch) T (min (unread_count ch + 5) 100)
                         = Inr history
               \<and> ms = rev (filter (\<lambda>m. T < ts m) history)
               \<and> set ms = {m \<in> set history. T < ts m}
               \<and> (\<forall>m \<in> set ms. \<not> ts m \<le> T)"
    using h m by blast
next
  assume a: "opt_show options \<and> u_exit (unread_action (Inr client) options) = 0
         \<and> getUserCounts client = Inr allChannels \<and> ch \<in> set (select_unread options allChannels)
         \<and> getConversationHistory client (chan_id ch) T (min (unread_count ch + 5) 100) = Inr history
         \<and> filter (\<lambda>m. T < ts m) history \<noteq> []"
  let ?chans = "sort_unread (select_unread options allChannels)"
  let ?msgs = "filter (\<lambda>m. T < ts m) history"
  from a assms have f: "fetch_unread client ch = Inr ?msgs"
    by (simp add: fetch_unread_def or_else_def)
  from a have ne: "select_unread options allChannels \<noteq> []" by auto
  with a have act: "unread_action (Inr client) options = unread_show client options ?chans"
    by (simp add: unread_action_def Let_def)
  obtain st err where l: "show_loop client ?chans
       \<lparr>totalMessagesShown = 0, latestTimestamps = [], shown = []\<rparr> = (st, err)"
    by (rule prod.exhaust)
  with a act have "err = None"
    by (cases err) (simp_all add: unread_show_def unread_failed_def)
  with l have l': "show_loop client ?chans
       \<lparr>totalMessagesShown = 0, latestTimestamps = [], shown = []\<rparr> = (st, None)" by simp
  from a have "ch \<in> set ?chans" by (simp add: sort_unread_def)
  from show_loop_complete [OF l' this f] a have "(ch, rev ?msgs) \<in> set (shown st)" by simp
  with act l' show "(ch, rev ?msgs) \<in> set (u_shown (unread_action (Inr client) options))"
    by (simp add: unread_show_def Let_def)
qed

text \<open>
  The conversation \<open>C1\<close>, read up to \<open>150.000001\<close>: the remote returns the message at
  the watermark too, and only the message after it is shown.
\<close>

theorem unread_strict_after_witness:
  "(chanA, [m200]) \<in> set (u_shown (unread_action (Inr unread_client) show_and_mark))
   \<and> getConversationHistory unread_client ''C1'' ''150.000001'' 7 = Inr [m200, m150]
   \<and> [m200] = rev (filter (\<lambda>m. ''150.000001'' < ts m) [m200, m150])"
proof -
  have i: "getConversationInfo unread_client (chan_id chanA) = Inr (Some ''150.000001'')"
    by (simp add: unread_client_def chanA_def)
  have n: "''150.000001'' \<noteq> []" by simp
  from unread_strict_after [OF i n, of "[m200]" show_and_mark "[chanA, chanB]" "[m200, m150]"]
  show ?thesis by (simp add: unread_eval)
qed


text \<open>
  C1. With \<open>--show\<close> and \<open>--mark-read\<close>, when the command ends with exit code 0, the
  \<open>markConversation\<close> calls are, in order, one for each conversation that had messages
  shown, with the greatest \<open>ts\<close> among the messages shown for that conversation; every
  conversation is shown at most once and never with an empty list, so a conversation
  with nothing shown is not marked. The conversation ids of the counters are distinct
  and the timestamps the remote returns begin with a digit.
\<close>

theorem mark_read_latest:
  assumes "opt_markRead options"
    and "getUserCounts client = Inr allChannels" and "distinct (map chan_id allChannels)"
    and "\<forall>c oldest limit history. getConversationHistory client c oldest limit = Inr history
           \<longrightarrow> (\<forall>m \<in> set history. digit_led (ts m))"
    and "u_exit (unread_action (Inr client) options) = 0"
  shows "u_marked (unread_action (Inr client) options) =
           map (\<lambda>(ch, ms). (chan_id ch, Max (ts ` set ms)))
             (u_shown (unread_action (Inr client) options))
    \<and> distinct (map (\<lambda>b. chan_id (fst b)) (u_shown (unread_action (Inr client) options)))
    \<and> (\<forall>(ch, ms) \<in> set (u_shown (unread_action (Inr client) options)). ms \<noteq> [])"
proof -
  let ?r = "unread_action (Inr client) options"
  let ?chans = "sort_unread (select_unread options allChannels)"
  have ne: "\<forall>(ch, ms) \<in> set (u_shown ?r). ms \<noteq> []"
    using u_shown_blocks by blast
  have wf: "\<forall>(ch, ms) \<in> set (u_shown ?r). \<forall>m \<in> set ms. ''0'' \<le> ts m"
  proof (clarify)
    fix ch ms m assume "(ch, ms) \<in> set (u_shown ?r)" and m: "m \<in> set ms"
    then have "fetch_unread client ch = Inr (rev ms)" using u_shown_blocks by blast
    from fetch_unread_subset [OF this] obtain oldest limit history where
      "getConversationHistory client (chan_id ch) oldest limit = Inr history"
      "set (rev ms) \<subseteq> set history"
      by blast
    with m assms(4) have "digit_led (ts m)" by auto
    then show "''0'' \<le> ts m" by (rule digit_led_ge)
  qed
  have mx: "\<forall>(ch, ms) \<in> set (u_shown ?r). latest_ts (rev ms) = Max (ts ` set ms)"
  proof (clarify)
    fix ch ms assume b: "(ch, ms) \<in> set (u_shown ?r)"
    with ne wf have "rev ms \<noteq> []" "\<forall>m \<in> set (rev ms). ''0'' \<le> ts m" by auto
    from latest_ts_Max [OF this] show "latest_ts (rev ms) = Max (ts ` set ms)" by simp
  qed
  show ?thesis
  proof (cases "?r = unread_show client options ?chans")
    case False
    with assms(2) have "u_shown ?r = [] \<and> u_marked ?r = []"
      by (auto simp: unread_action_def Let_def split: if_splits)
    then show ?thesis by simp
  next
    case True
    obtain st err where l: "show_loop client ?chans
         \<lparr>totalMessagesShown = 0, latestTimestamps = [], shown = []\<rparr> = (st, err)"
      by (rule prod.exhaust)
    with assms(5) True have "err = None"
      by (cases err) (simp_all add: unread_show_def unread_failed_def)
    with l have l': "show_loop client ?chans
         \<lparr>totalMessagesShown = 0, latestTimestamps = [], shown = []\<rparr> = (st, None)" by simp
    have d: "distinct (map chan_id ?chans)" using assms(3) by (rule distinct_select_unread)
    from show_loop_timestamps [OF l' d] obtain blocks where
      b: "shown st = blocks"
         "latestTimestamps st = map (\<lambda>(ch, ms). (chan_id ch, latest_ts (rev ms))) blocks"
         "distinct (map (\<lambda>b. chan_id (fst b)) blocks)"
      by auto
    from True l' have sh: "u_shown ?r = shown st"
      and mk: "u_marked ?r = (if length (latestTimestamps st) > 0 then mark_loop client (latestTimestamps st) else [])"
      using assms(1) by (simp_all add: unread_show_def Let_def)
    from mk have "u_marked ?r = latestTimestamps st"
      by (simp add: mark_loop_all)
    also have "\<dots> = map (\<lambda>(ch, ms). (chan_id ch, latest_ts (rev ms))) (u_shown ?r)"
      using b sh by simp
    also have "\<dots> = map (\<lambda>(ch, ms). (chan_id ch, Max (ts ` set ms))) (u_shown ?r)"
      using mx by (intro map_cong) auto
    finally show ?thesis using ne b sh by simp
  qed
qed

text \<open>
  Two conversations: each is marked with its own latest timestamp, in the order shown.
\<close>

theorem mark_read_latest_witness:
  "u_shown (unread_action (Inr unread_client) show_and_mark) = [(chanB, [m160, m300]), (chanA, [m200])]
   \<and> u_marked (unread_action (Inr unread_client) show_and_mark)
       = [(''C2'', ''300.000001''), (''C1'', ''200.000001'')]"
proof -
  have o: "opt_markRead show_and_mark" by (simp add: show_and_mark_def)
  have c: "getUserCounts unread_client = Inr [chanA, chanB]" by (simp add: unread_client_def)
  have d: "distinct (map chan_id [chanA, chanB])" by (simp add: chanA_def chanB_def)
  have w: "\<forall>c oldest limit history.
             getConversationHistory unread_client c oldest limit = Inr history
             \<longrightarrow> (\<forall>m \<in> set history. digit_led (ts m))"
    by (auto simp: unread_client_def ok_client_def digit_led_def is_digit_def
        m150_def m160_def m200_def m300_def split: if_splits)
  have s: "u_shown (unread_action (Inr unread_client) show_and_mark)
             = [(chanB, [m160, m300]), (chanA, [m200])]"
    by (simp add: unread_eval)
  have x: "u_exit (unread_action (Inr unread_client) show_and_mark) = 0"
    by (simp add: unread_eval)
  from mark_read_latest [OF o c d w x] s show ?thesis
    by (simp add: chanA_def chanB_def m160_def m200_def m300_def)
qed


section \<open>Batch download: paths and counts\<close>

lemma split_on_plain: "d \<notin> set b \<Longrightarrow> split_on d b = [b]"
  by (induction b) auto

lemma split_on_append: "split_on d (a @ d # b) = split_on d a @ split_on d b"
proof (induction a)
  case Nil
  show ?case by simp
next
  case (Cons x a)
  obtain l ls where "split_on d a = l # ls"
    using split_on_not_Nil [of d a] by (cases "split_on d a") auto
  with Cons show ?case by simp
qed

lemma str_includes_dot: "str_includes n ''.'' \<longleftrightarrow> CHR ''.'' \<in> set n"
proof
  assume "str_includes n ''.''"
  then obtain a b where "n = a @ ''.'' @ b" by (auto simp: str_includes_iff)
  then show "CHR ''.'' \<in> set n" by simp
next
  assume "CHR ''.'' \<in> set n"
  then obtain a b where "n = a @ CHR ''.'' # b" by (auto simp: in_set_conv_decomp)
  then have "n = a @ ''.'' @ b" by simp
  then show "str_includes n ''.''" unfolding str_includes_iff by blast
qed

lemma ext_split:
  assumes "n = a @ ''.'' @ b" and "CHR ''.'' \<notin> set b"
  shows "name_without_ext n = a \<and> file_ext n = ''.'' @ b"
proof -
  have inc: "str_includes n ''.''" using assms(1) by (simp add: str_includes_dot)
  have "split_on CHR ''.'' n = split_on CHR ''.'' a @ [b]"
    using assms by (simp add: split_on_append split_on_plain)
  then have e: "last (split_on CHR ''.'' n) = b" by simp
  have "takeWhile (\<lambda>x. x \<noteq> CHR ''.'') (rev n) = rev b"
    using assms by (auto simp: takeWhile_tail)
  then have "lastIndexOf n CHR ''.'' = length a"
    using assms(1) by (simp add: lastIndexOf_def)
  then have "take (lastIndexOf n CHR ''.'') n = a" using assms(1) by simp
  with inc e show ?thesis by (simp add: name_without_ext_def file_ext_def)
qed

lemma name_ext_join: "name_without_ext n @ file_ext n = n"
proof (cases "CHR ''.'' \<in> set n")
  case False
  then show ?thesis by (simp add: name_without_ext_def file_ext_def str_includes_dot)
next
  case True
  then obtain a b where "n = a @ CHR ''.'' # b" "CHR ''.'' \<notin> set b"
    by (meson split_list_last)
  then have "n = a @ ''.'' @ b" "CHR ''.'' \<notin> set b" by simp_all
  from ext_split [OF this] \<open>n = a @ ''.'' @ b\<close> show ?thesis by simp
qed

lemma string_of_nat_not_Nil: "string_of_nat k \<noteq> []"
  by (subst string_of_nat.simps) simp

lemma suffixed_not_plain: "suffixed_path outputDir fileName k \<noteq> join_path outputDir fileName"
proof
  assume "suffixed_path outputDir fileName k = join_path outputDir fileName"
  then have "name_without_ext fileName @ ''_'' @ string_of_nat k @ file_ext fileName
             = name_without_ext fileName @ file_ext fileName"
    by (simp add: suffixed_path_def join_path_def name_ext_join)
  then have "length (''_'' @ string_of_nat k @ file_ext fileName) = length (file_ext fileName)"
    by simp
  then show False by simp
qed

lemma candidate_inj: "candidate outputDir fileName j = candidate outputDir fileName k \<Longrightarrow> j = k"
  using suffixed_not_plain [of outputDir fileName j] suffixed_not_plain [of outputDir fileName k]
        suffixed_path_inj [of outputDir fileName j k]
  by (auto simp: candidate_def split: if_splits)

lemma find_free_path_fresh: "find_free_path dsk outputDir fileName finalPath counter \<notin> set dsk"
proof (induction dsk outputDir fileName finalPath counter rule: find_free_path.induct)
  case (1 dsk outputDir fileName finalPath counter)
  then show ?case by (subst find_free_path.simps) simp
qed

lemma find_free_path_upto:
  assumes "\<forall>k<j. candidate outputDir fileName k \<in> set dsk"
    and "candidate outputDir fileName j \<notin> set dsk"
  shows "k \<le> j \<Longrightarrow>
     find_free_path dsk outputDir fileName (candidate outputDir fileName k) (Suc k)
       = candidate outputDir fileName j"
proof (induction "j - k" arbitrary: k)
  case 0
  then have "k = j" by simp
  with assms(2) show ?case by (subst find_free_path.simps) simp
next
  case (Suc d)
  then have lt: "k < j" by simp
  with assms(1) have "candidate outputDir fileName k \<in> set dsk" by simp
  then have "find_free_path dsk outputDir fileName (candidate outputDir fileName k) (Suc k)
        = find_free_path dsk outputDir fileName (suffixed_path outputDir fileName (Suc k)) (Suc (Suc k))"
    by (subst find_free_path.simps) simp
  also have "\<dots> = find_free_path dsk outputDir fileName (candidate outputDir fileName (Suc k)) (Suc (Suc k))"
    by (simp add: candidate_def)
  also have "\<dots> = candidate outputDir fileName j"
    using Suc lt by (intro Suc.hyps(1)) simp_all
  finally show ?case .
qed

lemma free_candidate_exists: "\<exists>k. candidate outputDir fileName k \<notin> set dsk"
proof (rule ccontr)
  assume "\<not> (\<exists>k. candidate outputDir fileName k \<notin> set dsk)"
  then have "range (candidate outputDir fileName) \<subseteq> set dsk" by auto
  then have "finite (range (candidate outputDir fileName))"
    by (rule finite_subset) simp
  moreover have "inj (candidate outputDir fileName)"
    by (rule injI) (rule candidate_inj)
  ultimately have "finite (UNIV :: nat set)" by (rule finite_imageD)
  then show False by simp
qed

lemma find_free_path_first:
  "\<exists>j. find_free_path dsk outputDir fileName (join_path outputDir fileName) 1
          = candidate outputDir fileName j
       \<and> candidate outputDir fileName j \<notin> set dsk
       \<and> (\<forall>k<j. candidate outputDir fileName k \<in> set dsk)"
proof -
  define j where "j = (LEAST k. candidate outputDir fileName k \<notin> set dsk)"
  have free: "candidate outputDir fileName j \<notin> set dsk"
    unfolding j_def using free_candidate_exists by (rule LeastI_ex)
  have below: "\<forall>k<j. candidate outputDir fileName k \<in> set dsk"
    unfolding j_def using not_less_Least by blast
  from find_free_path_upto [OF below free, of 0]
  have "find_free_path dsk outputDir fileName (join_path outputDir fileName) 1
          = candidate outputDir fileName j"
    by (simp add: candidate_def)
  with free below show ?thesis by blast
qed

lemma download_loop_append:
  "download_loop client writeFile outputDir (before @ rest) st =
     download_loop client writeFile outputDir rest
       (download_loop client writeFile outputDir before st)"
  by (induction before arbitrary: st) simp_all

lemma download_file_counts:
  "downloadedCount (download_file client writeFile outputDir st file)
   + failedCount (download_file client writeFile outputDir st file)
   + skippedCount (download_file client writeFile outputDir st file)
   = downloadedCount st + failedCount st + skippedCount st + 1"
  by (simp add: download_file_def Let_def split: sum.split option.split)

lemma download_loop_counts:
  "downloadedCount (download_loop client writeFile outputDir fileList st)
   + failedCount (download_loop client writeFile outputDir fileList st)
   + skippedCount (download_loop client writeFile outputDir fileList st)
   = downloadedCount st + failedCount st + skippedCount st + length fileList"
proof (induction fileList arbitrary: st)
  case Nil
  show ?case by simp
next
  case (Cons f fs)
  show ?case
    using Cons.IH [of "download_file client writeFile outputDir st f"]
          download_file_counts [of client writeFile outputDir st f]
    by simp
qed

lemma download_file_tombstone:
  assumes "mode file = Some ''tombstone''"
  shows "skippedCount (download_file client writeFile outputDir st file) = skippedCount st + 1"
    and "downloadedCount (download_file client writeFile outputDir st file) = downloadedCount st"
    and "failedCount (download_file client writeFile outputDir st file) = failedCount st"
    and "fetched (download_file client writeFile outputDir st file) = fetched st"
    and "disk (download_file client writeFile outputDir st file) = disk st"
  using assms by (simp_all add: download_file_def Let_def)

text \<open>
  C4. A file whose \<open>mode\<close> is \<open>tombstone\<close>, wherever it stands in the batch, is skipped:
  processing it adds one to the skipped count and leaves the downloaded count, the
  failed count, the list of fetched URLs and the directory as they were; the loop goes
  on with the files after it.
\<close>

theorem tombstone_skipped:
  assumes "mode file = Some ''tombstone''"
    and "s = download_loop client writeFile outputDir before st"
    and "s' = download_file client writeFile outputDir s file"
  shows "download_loop client writeFile outputDir (before @ file # rest) st
           = download_loop client writeFile outputDir rest s'
    \<and> skippedCount s' = skippedCount s + 1
    \<and> downloadedCount s' = downloadedCount s
    \<and> failedCount s' = failedCount s
    \<and> fetched s' = fetched s
    \<and> disk s' = disk s"
  using assms by (simp add: download_loop_append download_file_tombstone)

text \<open>
  A deleted file between two files of the same name: it is counted as skipped and its
  URL is never fetched.
\<close>

theorem tombstone_skipped_witness:
  "skippedCount (download_loop ok_client (\<lambda>p. None) ''out'' [fileA1, fileT, fileA2] (start_state [''out''])) = 1
   \<and> downloadedCount (download_loop ok_client (\<lambda>p. None) ''out'' [fileA1, fileT, fileA2] (start_state [''out''])) = 2
   \<and> fetched (download_loop ok_client (\<lambda>p. None) ''out'' [fileA1, fileT, fileA2] (start_state [''out'']))
       = [''https://files/F1'', ''https://files/F2'']"
proof -
  have m: "mode fileT = Some ''tombstone''" by (simp add: fileT_def)
  define s where "s = download_loop ok_client (\<lambda>p. None) ''out'' [fileA1] (start_state [''out''])"
  define s' where "s' = download_file ok_client (\<lambda>p. None) ''out'' s fileT"
  have s: "s = \<lparr>downloadedCount = 1, failedCount = 0, skippedCount = 0,
                 disk = [''out/a.txt'', ''out''], fetched = [''https://files/F1''],
                 dl_printed = [Downloaded ''out/a.txt'' 0]\<rparr>"
    unfolding s_def by code_simp
  from tombstone_skipped [where rest = "[fileA2]", OF m s_def s'_def]
  have t: "download_loop ok_client (\<lambda>p. None) ''out'' ([fileA1] @ fileT # [fileA2]) (start_state [''out''])
             = download_loop ok_client (\<lambda>p. None) ''out'' [fileA2] s'"
    and c: "skippedCount s' = skippedCount s + 1" "downloadedCount s' = downloadedCount s"
       "failedCount s' = failedCount s" "fetched s' = fetched s" "disk s' = disk s"
    by blast+
  have p: "dl_printed s' = dl_printed s"
    unfolding s'_def by (simp add: download_file_def download_url_def js_or_def fileT_def)
  have "s' = \<lparr>downloadedCount = 1, failedCount = 0, skippedCount = 1,
                 disk = [''out/a.txt'', ''out''], fetched = [''https://files/F1''],
                 dl_printed = [Downloaded ''out/a.txt'' 0]\<rparr>"
    using c p s by (cases s') simp
  then have "download_loop ok_client (\<lambda>p. None) ''out'' [fileA2] s'
             = \<lparr>downloadedCount = 2, failedCount = 0, skippedCount = 1,
                 disk = [''out/a_1.txt'', ''out/a.txt'', ''out''],
                 fetched = [''https://files/F1'', ''https://files/F2''],
                 dl_printed = [Downloaded ''out/a.txt'' 0, Downloaded ''out/a_1.txt'' 0]\<rparr>"
    by (simp only:) code_simp
  with t show ?thesis by simp
qed


lemma download_file_success:
  assumes "truthy (download_url file)" and "mode file \<noteq> Some ''tombstone''"
    and "file_name_of file = name"
    and "fetchFileBinary client (or_else (download_url file) []) = Inr n"
    and "writeFile (candidate outputDir name j) = None"
    and "\<forall>k<j. candidate outputDir name k \<in> set (disk st)"
    and "candidate outputDir name j \<notin> set (disk st)"
  shows "download_file client writeFile outputDir st file =
     st\<lparr>fetched := fetched st @ [or_else (download_url file) []],
        disk := candidate outputDir name j # disk st,
        downloadedCount := downloadedCount st + 1,
        dl_printed := dl_printed st @ [Downloaded (candidate outputDir name j) n]\<rparr>"
proof -
  from find_free_path_upto [OF assms(6,7), of 0]
  have "find_free_path (disk st) outputDir name (candidate outputDir name 0) (Suc 0)
          = candidate outputDir name j"
    by simp
  then have "find_free_path (disk st) outputDir name (join_path outputDir name) 1
          = candidate outputDir name j"
    by (simp add: candidate_def)
  with assms(1-5) show ?thesis
    by (simp add: download_file_def Let_def)
qed

lemma download_file_disk_mono:
  "set (disk st) \<subseteq> set (disk (download_file client writeFile outputDir st file))"
  by (auto simp: download_file_def Let_def split: sum.split option.split)

lemma download_loop_disk_mono:
  "set (disk st) \<subseteq> set (disk (download_loop client writeFile outputDir fileList st))"
proof (induction fileList arbitrary: st)
  case Nil
  show ?case by simp
next
  case (Cons f fs)
  show ?case
    using Cons.IH [of "download_file client writeFile outputDir st f"]
          download_file_disk_mono [of st client writeFile outputDir f]
    by auto
qed

lemma download_file_skipped_disk:
  assumes "\<not> (truthy (download_url file) \<and> mode file \<noteq> Some ''tombstone'')"
  shows "disk (download_file client writeFile outputDir st file) = disk st"
  using assms by (auto simp: download_file_def Let_def)

lemma download_file_first_free:
  assumes "truthy (download_url file)" and "mode file \<noteq> Some ''tombstone''"
    and "fetchFileBinary client (or_else (download_url file) []) = Inr n"
    and "\<forall>k. writeFile (candidate outputDir (file_name_of file) k) = None"
  shows "\<exists>j. disk (download_file client writeFile outputDir st file)
               = candidate outputDir (file_name_of file) j # disk st
           \<and> candidate outputDir (file_name_of file) j \<notin> set (disk st)
           \<and> (\<forall>k<j. candidate outputDir (file_name_of file) k \<in> set (disk st))"
proof -
  from find_free_path_first [of "disk st" outputDir "file_name_of file"]
  obtain j where j: "find_free_path (disk st) outputDir (file_name_of file)
                       (join_path outputDir (file_name_of file)) 1
                     = candidate outputDir (file_name_of file) j"
    and free: "candidate outputDir (file_name_of file) j \<notin> set (disk st)"
    and below: "\<forall>k<j. candidate outputDir (file_name_of file) k \<in> set (disk st)"
    by blast
  from assms(4) have "writeFile (candidate outputDir (file_name_of file) j) = None" by simp
  with assms(1,2,3) j
  have "disk (download_file client writeFile outputDir st file)
          = candidate outputDir (file_name_of file) j # disk st"
    by (simp add: download_file_def Let_def)
  with free below show ?thesis by blast
qed

text \<open>
  The invariant of the loop for one name and the \<open>N\<close> files of the batch that map to
  it: when none of the paths these files are to receive is written by a file of another
  name, the candidates among them that exist after a part of the batch are those below
  a bound, and the bound goes up by one with every file of that name.
\<close>

lemma same_name_invariant:
  assumes h1: "\<forall>f \<in> set fileList. maps_to name f \<longrightarrow>
                 (\<exists>n. fetchFileBinary client (or_else (download_url f) []) = Inr n)"
    and h2: "\<forall>k < m + N. writeFile (candidate outputDir name k) = None"
    and h3: "\<forall>before g rest. fileList = before @ g # rest \<and> file_name_of g \<noteq> name \<longrightarrow>
               (\<forall>k < m + N. candidate outputDir name k
                       \<in> set (disk (download_file client writeFile outputDir
                                      (download_loop client writeFile outputDir before st) g))
                    \<longrightarrow> candidate outputDir name k
                       \<in> set (disk (download_loop client writeFile outputDir before st)))"
    and inv0: "\<forall>k < m + N. candidate outputDir name k \<in> set (disk st) \<longleftrightarrow> k < m"
    and n: "N = length (filter (maps_to name) fileList)"
  shows "fileList = before @ rest \<Longrightarrow>
     \<forall>k < m + N. candidate outputDir name k
                   \<in> set (disk (download_loop client writeFile outputDir before st))
           \<longleftrightarrow> k < m + length (filter (maps_to name) before)"
proof (induction before arbitrary: rest rule: rev_induct)
  case Nil
  from inv0 show ?case by simp
next
  case (snoc g bs)
  define s where "s = download_loop client writeFile outputDir bs st"
  define j where "j = m + length (filter (maps_to name) bs)"
  from snoc.prems have fl: "fileList = bs @ g # rest" by simp
  from snoc.IH [OF fl]
  have inv: "\<forall>k < m + N. candidate outputDir name k \<in> set (disk s) \<longleftrightarrow> k < j"
    by (simp add: s_def j_def)
  have step: "download_loop client writeFile outputDir (bs @ [g]) st
                = download_file client writeFile outputDir s g"
    by (simp add: download_loop_append s_def)
  show ?case
  proof (cases "maps_to name g")
    case True
    from fl have "g \<in> set fileList" by simp
    with h1 True obtain b where b: "fetchFileBinary client (or_else (download_url g) []) = Inr b"
      by blast
    from True have g: "truthy (download_url g)" "mode g \<noteq> Some ''tombstone''" "file_name_of g = name"
      by (simp_all add: maps_to_def)
    from n fl True have jN: "j < m + N" by (simp add: j_def)
    with h2 have w: "writeFile (candidate outputDir name j) = None" by simp
    from inv jN have below: "\<forall>k<j. candidate outputDir name k \<in> set (disk s)" by simp
    from inv jN have free: "candidate outputDir name j \<notin> set (disk s)" by blast
    have "disk (download_file client writeFile outputDir s g) = candidate outputDir name j # disk s"
      using download_file_success
              [where writeFile = writeFile and outputDir = outputDir and j = j,
               OF g b w below free]
      by simp
    with inv candidate_inj [of outputDir name _ j]
    have "\<forall>k < m + N. candidate outputDir name k
                         \<in> set (disk (download_file client writeFile outputDir s g))
             \<longleftrightarrow> k < Suc j"
      by (auto simp: less_Suc_eq)
    with True show ?thesis by (simp add: step j_def)
  next
    case False
    have same: "\<forall>k < m + N. candidate outputDir name k
                         \<in> set (disk (download_file client writeFile outputDir s g))
             \<longleftrightarrow> candidate outputDir name k \<in> set (disk s)"
    proof (cases "file_name_of g = name")
      case True
      with False have "\<not> (truthy (download_url g) \<and> mode g \<noteq> Some ''tombstone'')"
        by (simp add: maps_to_def)
      then have "disk (download_file client writeFile outputDir s g) = disk s"
        by (rule download_file_skipped_disk)
      then show ?thesis by simp
    next
      case False
      with h3 fl have "\<forall>k < m + N. candidate outputDir name k
                       \<in> set (disk (download_file client writeFile outputDir s g))
                    \<longrightarrow> candidate outputDir name k \<in> set (disk s)"
        unfolding s_def by blast
      moreover have "set (disk s) \<subseteq> set (disk (download_file client writeFile outputDir s g))"
        by (rule download_file_disk_mono)
      ultimately show ?thesis by blast
    qed
    with inv False show ?thesis by (simp add: step j_def)
  qed
qed

text \<open>
  C3, as stated, fails in three ways. A directory that holds \<open>a.txt\<close> and \<open>a_1.txt\<close> from
  an earlier run: the first file named \<open>a.txt\<close> of the batch collides and is written to
  \<open>a_2.txt\<close>, not \<open>a_1.txt\<close>. Two files named \<open>a.txt\<close> of which the first fails to
  download: nothing was written for the first, so the second is written to the same
  path \<open>a.txt\<close>; two files, one path. And a batch of a file named \<open>a.txt\<close>, a file named
  \<open>a_1.txt\<close> and a second file named \<open>a.txt\<close>, into an empty directory: the second
  \<open>a.txt\<close> is the first to collide and is written to \<open>a_2.txt\<close>, the path \<open>a_1.txt\<close>
  being taken by the file of that name.
\<close>

theorem same_name_counterexample:
  "dl_printed (download_loop ok_client (\<lambda>p. None) ''out'' [fileA1]
       (start_state [''out/a.txt'', ''out/a_1.txt'']))
     = [Downloaded ''out/a_2.txt'' 0]
   \<and> dl_printed (download_loop flaky_client (\<lambda>p. None) ''out'' [fileA1, fileA2] (start_state [''out'']))
     = [DownloadFailed ''a.txt'' (Failure ''network''), Downloaded ''out/a.txt'' 10]
   \<and> disk (download_loop flaky_client (\<lambda>p. None) ''out'' [fileA1, fileA2] (start_state [''out'']))
     = [''out/a.txt'', ''out'']
   \<and> dl_printed (download_loop ok_client (\<lambda>p. None) ''out'' [fileA1, fileS, fileA2]
       (start_state [''out'']))
     = [Downloaded ''out/a.txt'' 0, Downloaded ''out/a_1.txt'' 0, Downloaded ''out/a_2.txt'' 0]"
  by code_simp

text \<open>
  C3, amended. Take the \<open>N\<close> files of a batch that map to one file name (each with a URL
  and not deleted), in the order of the batch, whatever other files stand between them.
  The paths in question are the plain path, when it is free at the start, and the
  suffixed paths \<open>_1\<close>, \<open>_2\<close>, ... of the name, as many as it takes to have \<open>N\<close> paths.
  When every download of such a file succeeds, the directory holds none of these
  suffixed paths beforehand, and no file of another name in the batch is written to one
  of these paths, each of the files is written to the candidate whose number is the
  number of such files before it in the batch, counted from 0 when the plain path is
  free at the start and from 1 when it exists: so the first is written to the plain
  path when that is free, and the k-th file that collides receives suffix \<open>_k\<close>. These
  are \<open>N\<close> paths, pairwise distinct, none of which existed before and all of which exist
  afterwards. The suffix stands before the last dot of the name, or at the end of a name
  without a dot. In general, whatever the directory holds and whatever was written
  earlier in the batch, a file that is downloaded is written to the first of the plain
  path and the suffixed paths \<open>_1\<close>, \<open>_2\<close>, ... of its name that does not exist at the
  moment it is processed.
\<close>

theorem same_name_paths:
  assumes "\<forall>f \<in> set fileList. maps_to name f \<longrightarrow>
             (\<exists>n. fetchFileBinary client (or_else (download_url f) []) = Inr n)"
    and "\<forall>k < m + N. writeFile (candidate outputDir name k) = None"
    and "\<forall>k. 1 \<le> k \<and> k < m + N \<longrightarrow> suffixed_path outputDir name k \<notin> set (disk st)"
    and "\<forall>before g rest. fileList = before @ g # rest \<and> file_name_of g \<noteq> name \<longrightarrow>
           (\<forall>k < m + N. candidate outputDir name k
                   \<in> set (disk (download_file client writeFile outputDir
                                  (download_loop client writeFile outputDir before st) g))
                \<longrightarrow> candidate outputDir name k
                   \<in> set (disk (download_loop client writeFile outputDir before st)))"
    and "m = (if join_path outputDir name \<in> set (disk st) then 1 else 0)"
    and "N = length (filter (maps_to name) fileList)"
  shows "(\<forall>before f rest. fileList = before @ f # rest \<and> maps_to name f \<longrightarrow>
            disk (download_file client writeFile outputDir
                    (download_loop client writeFile outputDir before st) f)
              = candidate outputDir name (m + length (filter (maps_to name) before))
                # disk (download_loop client writeFile outputDir before st))
    \<and> (\<forall>k. m \<le> k \<and> k < m + N \<longrightarrow>
          candidate outputDir name k
            \<in> set (disk (download_loop client writeFile outputDir fileList st))
          \<and> candidate outputDir name k \<notin> set (disk st))
    \<and> distinct (map (candidate outputDir name) [m ..< m + N])
    \<and> candidate outputDir name 0 = join_path outputDir name
    \<and> (\<forall>k\<ge>1. \<forall>a b. name = a @ ''.'' @ b \<and> CHR ''.'' \<notin> set b \<longrightarrow>
          candidate outputDir name k = join_path outputDir (a @ ''_'' @ string_of_nat k @ ''.'' @ b))
    \<and> (\<forall>k\<ge>1. CHR ''.'' \<notin> set name \<longrightarrow>
          candidate outputDir name k = join_path outputDir (name @ ''_'' @ string_of_nat k))
    \<and> (truthy (download_url g) \<and> mode g \<noteq> Some ''tombstone''
        \<and> (\<exists>n. fetchFileBinary client (or_else (download_url g) []) = Inr n)
        \<and> (\<forall>k. writeFile (candidate outputDir (file_name_of g) k) = None) \<longrightarrow>
          (\<exists>j. disk (download_file client writeFile outputDir s g)
                  = candidate outputDir (file_name_of g) j # disk s
              \<and> candidate outputDir (file_name_of g) j \<notin> set (disk s)
              \<and> (\<forall>k<j. candidate outputDir (file_name_of g) k \<in> set (disk s))))"
proof -
  have inv0: "\<forall>k < m + N. candidate outputDir name k \<in> set (disk st) \<longleftrightarrow> k < m"
    using assms(3,5) by (auto simp: candidate_def)
  note inv = same_name_invariant [OF assms(1,2,4) inv0 assms(6)]
  have 1: "\<forall>before f rest. fileList = before @ f # rest \<and> maps_to name f \<longrightarrow>
            disk (download_file client writeFile outputDir
                    (download_loop client writeFile outputDir before st) f)
              = candidate outputDir name (m + length (filter (maps_to name) before))
                # disk (download_loop client writeFile outputDir before st)"
  proof (intro allI impI)
    fix before :: "SlackFile list" and f :: SlackFile and rest :: "SlackFile list"
    assume a: "fileList = before @ f # rest \<and> maps_to name f"
    define j where "j = m + length (filter (maps_to name) before)"
    from a have fl: "fileList = before @ (f # rest)" by simp
    from a have "f \<in> set fileList" by simp
    with assms(1) a obtain b where b: "fetchFileBinary client (or_else (download_url f) []) = Inr b"
      by blast
    from a have f: "truthy (download_url f)" "mode f \<noteq> Some ''tombstone''" "file_name_of f = name"
      by (simp_all add: maps_to_def)
    from a assms(6) have jN: "j < m + N" by (simp add: j_def)
    with assms(2) have w: "writeFile (candidate outputDir name j) = None" by simp
    from inv [OF fl]
    have i: "\<forall>k < m + N. candidate outputDir name k
                            \<in> set (disk (download_loop client writeFile outputDir before st))
                \<longleftrightarrow> k < j"
      by (simp add: j_def)
    from i jN
    have below: "\<forall>k<j. candidate outputDir name k
                          \<in> set (disk (download_loop client writeFile outputDir before st))"
      by simp
    from i jN
    have free: "candidate outputDir name j
                  \<notin> set (disk (download_loop client writeFile outputDir before st))"
      by blast
    from download_file_success
           [where writeFile = writeFile and outputDir = outputDir and j = j, OF f b w below free]
    show "disk (download_file client writeFile outputDir
                    (download_loop client writeFile outputDir before st) f)
              = candidate outputDir name (m + length (filter (maps_to name) before))
                # disk (download_loop client writeFile outputDir before st)"
      by (simp add: j_def)
  qed
  have "fileList = fileList @ []" by simp
  from inv [OF this] assms(6)
  have fin: "\<forall>k < m + N. candidate outputDir name k
               \<in> set (disk (download_loop client writeFile outputDir fileList st))
             \<longleftrightarrow> k < m + N"
    by simp
  have 2: "\<forall>k. m \<le> k \<and> k < m + N \<longrightarrow>
          candidate outputDir name k
            \<in> set (disk (download_loop client writeFile outputDir fileList st))
          \<and> candidate outputDir name k \<notin> set (disk st)"
    using fin inv0 by (simp add: not_less)
  have inj: "inj_on (candidate outputDir name) (set [m ..< m + N])"
    by (rule inj_onI) (rule candidate_inj)
  have 3: "distinct (map (candidate outputDir name) [m ..< m + N])"
    using inj by (simp add: distinct_map)
  have 4: "candidate outputDir name 0 = join_path outputDir name"
    by (simp add: candidate_def)
  have 5: "\<forall>k\<ge>1. \<forall>a b. name = a @ ''.'' @ b \<and> CHR ''.'' \<notin> set b \<longrightarrow>
          candidate outputDir name k = join_path outputDir (a @ ''_'' @ string_of_nat k @ ''.'' @ b)"
  proof (intro allI impI)
    fix k :: nat and a b :: string
    assume k: "1 \<le> k" and n: "name = a @ ''.'' @ b \<and> CHR ''.'' \<notin> set b"
    then have "name_without_ext name = a \<and> file_ext name = ''.'' @ b"
      using ext_split [of name a b] by blast
    with k show "candidate outputDir name k
        = join_path outputDir (a @ ''_'' @ string_of_nat k @ ''.'' @ b)"
      by (simp add: candidate_def suffixed_path_def)
  qed
  have 6: "\<forall>k\<ge>1. CHR ''.'' \<notin> set name \<longrightarrow>
          candidate outputDir name k = join_path outputDir (name @ ''_'' @ string_of_nat k)"
    by (auto simp: candidate_def suffixed_path_def name_without_ext_def file_ext_def str_includes_dot)
  have 7: "truthy (download_url g) \<and> mode g \<noteq> Some ''tombstone''
        \<and> (\<exists>n. fetchFileBinary client (or_else (download_url g) []) = Inr n)
        \<and> (\<forall>k. writeFile (candidate outputDir (file_name_of g) k) = None) \<longrightarrow>
          (\<exists>j. disk (download_file client writeFile outputDir s g)
                  = candidate outputDir (file_name_of g) j # disk s
              \<and> candidate outputDir (file_name_of g) j \<notin> set (disk s)
              \<and> (\<forall>k<j. candidate outputDir (file_name_of g) k \<in> set (disk s)))"
    using download_file_first_free [of g client _ writeFile outputDir s] by blast
  show ?thesis
    by (rule conjI [OF 1 conjI [OF 2 conjI [OF 3 conjI [OF 4 conjI [OF 5 conjI [OF 6 7]]]]]])
qed

text \<open>
  A file named \<open>a.txt\<close>, a file named \<open>b.txt\<close> and a second file named \<open>a.txt\<close> into an
  empty output directory: the second \<open>a.txt\<close> is written to \<open>a_1.txt\<close>, and both paths
  exist at the end.
\<close>

lemma c0: "candidate ''out'' ''a.txt'' 0 = ''out/a.txt''" by code_simp
lemma c1: "candidate ''out'' ''a.txt'' (Suc 0) = ''out/a_1.txt''" by code_simp

theorem same_name_paths_witness:
  "disk (download_file ok_client (\<lambda>p. None) ''out''
           (download_loop ok_client (\<lambda>p. None) ''out'' [fileA1, fileB] (start_state [''out'']))
           fileA3)
     = ''out/a_1.txt''
       # disk (download_loop ok_client (\<lambda>p. None) ''out'' [fileA1, fileB] (start_state [''out'']))
   \<and> disk (download_loop ok_client (\<lambda>p. None) ''out'' [fileA1, fileB] (start_state [''out'']))
     = [''out/b.txt'', ''out/a.txt'', ''out'']
   \<and> ''out/a.txt''
       \<in> set (disk (download_loop ok_client (\<lambda>p. None) ''out'' [fileA1, fileB, fileA3]
                      (start_state [''out''])))
   \<and> ''out/a_1.txt''
       \<in> set (disk (download_loop ok_client (\<lambda>p. None) ''out'' [fileA1, fileB, fileA3]
                      (start_state [''out''])))
   \<and> candidate ''out'' ''a.txt'' 2 = join_path ''out'' (''a'' @ ''_'' @ string_of_nat 2 @ ''.'' @ ''txt'')"
proof -
  let ?st = "start_state [''out'']"
  let ?w = "\<lambda>p :: string. None :: error option"
  have nm: "file_name_of fileA1 = ''a.txt''" "file_name_of fileA3 = ''a.txt''"
      "file_name_of fileB = ''b.txt''"
    by (simp_all add: fileA1_def fileA3_def fileB_def file_name_of_def or_else_def)
  have mp: "maps_to ''a.txt'' fileA1" "maps_to ''a.txt'' fileA3" "\<not> maps_to ''a.txt'' fileB"
    by (simp_all add: maps_to_def fileA1_def fileA3_def fileB_def file_name_of_def download_url_def
        js_or_def or_else_def)
  have h1: "\<forall>f \<in> set [fileA1, fileB, fileA3]. maps_to ''a.txt'' f \<longrightarrow>
             (\<exists>n. fetchFileBinary ok_client (or_else (download_url f) []) = Inr n)"
    by (simp add: ok_client_def)
  have h2: "\<forall>k < 0 + 2. ?w (candidate ''out'' ''a.txt'' k) = None" by simp
  have h3: "\<forall>k. 1 \<le> k \<and> k < 0 + 2 \<longrightarrow> suffixed_path ''out'' ''a.txt'' k \<notin> set (disk ?st)"
    by (simp add: start_state_def suffixed_path_def join_path_def)
  have e0: "disk (download_loop ok_client ?w ''out'' [fileA1] ?st) = [''out/a.txt'', ''out'']"
    by code_simp
  have e1: "disk (download_file ok_client ?w ''out'' (download_loop ok_client ?w ''out'' [fileA1] ?st)
                    fileB)
              = [''out/b.txt'', ''out/a.txt'', ''out'']"
    by code_simp
  have e2: "disk (download_loop ok_client ?w ''out'' [fileA1, fileB] ?st)
              = [''out/b.txt'', ''out/a.txt'', ''out'']"
    by code_simp
  have nw: "name_without_ext ''a.txt'' = ''a''" by code_simp
  have ne: "candidate ''out'' ''a.txt'' k \<noteq> ''out/b.txt''" for k
    by (simp add: candidate_def suffixed_path_def join_path_def nw)
  have h4: "\<forall>before g rest. [fileA1, fileB, fileA3] = before @ g # rest \<and> file_name_of g \<noteq> ''a.txt'' \<longrightarrow>
           (\<forall>k < 0 + 2. candidate ''out'' ''a.txt'' k
                   \<in> set (disk (download_file ok_client ?w ''out''
                                  (download_loop ok_client ?w ''out'' before ?st) g))
                \<longrightarrow> candidate ''out'' ''a.txt'' k
                   \<in> set (disk (download_loop ok_client ?w ''out'' before ?st)))"
  proof (intro allI impI)
    fix before :: "SlackFile list" and g :: SlackFile and rest :: "SlackFile list" and k :: nat
    assume a: "[fileA1, fileB, fileA3] = before @ g # rest \<and> file_name_of g \<noteq> ''a.txt''"
      and c: "candidate ''out'' ''a.txt'' k
                \<in> set (disk (download_file ok_client ?w ''out''
                               (download_loop ok_client ?w ''out'' before ?st) g))"
    from a have "(before = [] \<and> g = fileA1) \<or> (before = [fileA1] \<and> g = fileB)
                 \<or> (before = [fileA1, fileB] \<and> g = fileA3)"
      by (auto simp: Cons_eq_append_conv)
    with a nm have bg: "before = [fileA1]" "g = fileB" by auto
    from c have "candidate ''out'' ''a.txt'' k \<in> set [''out/b.txt'', ''out/a.txt'', ''out'']"
      by (simp only: bg e1)
    with ne [of k] have "candidate ''out'' ''a.txt'' k \<in> set [''out/a.txt'', ''out'']"
      by simp
    then show "candidate ''out'' ''a.txt'' k
                 \<in> set (disk (download_loop ok_client ?w ''out'' before ?st))"
      by (simp only: bg e0)
  qed
  have h5: "(0::nat) = (if join_path ''out'' ''a.txt'' \<in> set (disk ?st) then 1 else 0)"
    by (simp add: start_state_def join_path_def)
  have h6: "(2::nat) = length (filter (maps_to ''a.txt'') [fileA1, fileB, fileA3])"
    by (simp add: mp)
  note t = same_name_paths [OF h1 h2 h3 h4 h5 h6]
  note t1 = t [THEN conjunct1, rule_format, of "[fileA1, fileB]" fileA3 "[]"]
  have "disk (download_file ok_client ?w ''out'' (download_loop ok_client ?w ''out'' [fileA1, fileB] ?st)
                fileA3)
          = candidate ''out'' ''a.txt'' (0 + length (filter (maps_to ''a.txt'') [fileA1, fileB]))
            # disk (download_loop ok_client ?w ''out'' [fileA1, fileB] ?st)"
    by (rule t1) (simp add: mp)
  moreover have "0 + length (filter (maps_to ''a.txt'') [fileA1, fileB]) = Suc 0"
    by (simp add: mp)
  ultimately have 1: "disk (download_file ok_client ?w ''out''
                             (download_loop ok_client ?w ''out'' [fileA1, fileB] ?st) fileA3)
          = ''out/a_1.txt'' # disk (download_loop ok_client ?w ''out'' [fileA1, fileB] ?st)"
    by (simp only: c1)
  note t2 = t [THEN conjunct2, THEN conjunct1, rule_format]
  have "candidate ''out'' ''a.txt'' 0
          \<in> set (disk (download_loop ok_client ?w ''out'' [fileA1, fileB, fileA3] ?st))"
    using t2 [of 0] by simp
  then have 3: "''out/a.txt''
          \<in> set (disk (download_loop ok_client ?w ''out'' [fileA1, fileB, fileA3] ?st))"
    by (simp only: c0)
  have "candidate ''out'' ''a.txt'' (Suc 0)
          \<in> set (disk (download_loop ok_client ?w ''out'' [fileA1, fileB, fileA3] ?st))"
    using t2 [of "Suc 0"] by simp
  then have 4: "''out/a_1.txt''
          \<in> set (disk (download_loop ok_client ?w ''out'' [fileA1, fileB, fileA3] ?st))"
    by (simp only: c1)
  note t5 = t [THEN conjunct2, THEN conjunct2, THEN conjunct2, THEN conjunct2, THEN conjunct1,
               rule_format, of 2 "''a''" "''txt''"]
  have 5: "candidate ''out'' ''a.txt'' 2
      = join_path ''out'' (''a'' @ ''_'' @ string_of_nat 2 @ ''.'' @ ''txt'')"
    by (rule t5) simp_all
  show ?thesis
    by (rule conjI [OF 1 conjI [OF e2 conjI [OF 3 conjI [OF 4 5]]]])
qed
section \<open>Failures inside the batch loops\<close>

lemma transcripts_of_files_none:
  "\<not> list_ex (\<lambda>f. vtt_ref f \<noteq> None) fs \<Longrightarrow> transcripts_of_files client fs acc lg = (acc, lg)"
  by (induction fs arbitrary: acc lg) auto

lemma attach_transcript_none:
  "\<not> list_ex (\<lambda>f. vtt_ref f \<noteq> None) (files msg) \<Longrightarrow> fst (attach_transcript client msg) = msg"
  by (simp add: attach_transcript_def transcripts_of_files_none)

lemma fetchTranscripts_map:
  "fst (fetchTranscriptsForMessages client msgs) = map (\<lambda>m. fst (attach_transcript client m)) msgs"
proof (induction msgs)
  case Nil
  show ?case by simp
next
  case (Cons m ms)
  obtain a b where r: "fetchTranscriptsForMessages client ms = (a, b)" by (rule prod.exhaust)
  obtain c d where t: "attach_transcript client m = (c, d)" by (rule prod.exhaust)
  from Cons r have a: "a = map (\<lambda>m. fst (attach_transcript client m)) ms" by simp
  show ?case
  proof (cases "list_ex (\<lambda>f. vtt_ref f \<noteq> None) (files m)")
    case True
    with r t a show ?thesis by simp
  next
    case False
    with r a attach_transcript_none [OF False, of client] show ?thesis by simp
  qed
qed

lemma transcripts_of_files_log:
  "set lg \<subseteq> set (snd (transcripts_of_files client fs acc lg))"
proof (induction fs arbitrary: acc lg)
  case Nil
  show ?case by simp
next
  case (Cons f fs)
  show ?case
  proof (cases "vtt_ref f")
    case None
    with Cons [of lg acc] show ?thesis by simp
  next
    case (Some url)
    show ?thesis
    proof (cases "fetchFileContent client url")
      case (Inl e)
      with Some Cons [of "lg @ [ConsoleError (''Failed to fetch transcript for file '' @ file_id f)]" acc]
      show ?thesis by simp
    next
      case (Inr content)
      with Some Cons [of lg] show ?thesis by (simp add: Let_def)
    qed
  qed
qed

lemma transcripts_of_files_failure:
  assumes "f \<in> set fs" and "vtt_ref f = Some url" and "fetchFileContent client url = Inl e"
  shows "ConsoleError (''Failed to fetch transcript for file '' @ file_id f)
           \<in> set (snd (transcripts_of_files client fs acc lg))"
  using assms(1)
proof (induction fs arbitrary: acc lg)
  case Nil
  then show ?case by simp
next
  case (Cons g gs)
  show ?case
  proof (cases "g = f")
    case True
    have "ConsoleError (''Failed to fetch transcript for file '' @ file_id f)
        \<in> set (lg @ [ConsoleError (''Failed to fetch transcript for file '' @ file_id f)])"
      by simp
    with transcripts_of_files_log
          [of "lg @ [ConsoleError (''Failed to fetch transcript for file '' @ file_id f)]" client gs acc]
    have "ConsoleError (''Failed to fetch transcript for file '' @ file_id f)
        \<in> set (snd (transcripts_of_files client gs acc
              (lg @ [ConsoleError (''Failed to fetch transcript for file '' @ file_id f)])))"
      by blast
    with True assms(2,3) show ?thesis by simp
  next
    case False
    with Cons.prems have "f \<in> set gs" by simp
    note ih = Cons.IH [OF this]
    show ?thesis
    proof (cases "vtt_ref g")
      case None
      with ih [of acc lg] show ?thesis by simp
    next
      case (Some u)
      show ?thesis
      proof (cases "fetchFileContent client u")
        case (Inl e')
        with Some ih [of acc "lg @ [ConsoleError (''Failed to fetch transcript for file '' @ file_id g)]"]
        show ?thesis by simp
      next
        case (Inr content)
        with Some ih [of _ lg] show ?thesis by (simp add: Let_def)
      qed
    qed
  qed
qed

lemma fetchTranscripts_failure:
  assumes "msg \<in> set msgs" and "f \<in> set (files msg)" and "vtt_ref f = Some url"
    and "fetchFileContent client url = Inl e"
  shows "ConsoleError (''Failed to fetch transcript for file '' @ file_id f)
           \<in> set (snd (fetchTranscriptsForMessages client msgs))"
  using assms(1)
proof (induction msgs)
  case Nil
  then show ?case by simp
next
  case (Cons m ms)
  obtain a b where r: "fetchTranscriptsForMessages client ms = (a, b)" by (rule prod.exhaust)
  obtain c d where t: "attach_transcript client m = (c, d)" by (rule prod.exhaust)
  show ?case
  proof (cases "m = msg")
    case True
    from assms(2,3) have ex: "list_ex (\<lambda>f. vtt_ref f \<noteq> None) (files msg)"
      by (auto simp: list_ex_iff)
    have "ConsoleError (''Failed to fetch transcript for file '' @ file_id f)
            \<in> set (snd (transcripts_of_files client (files msg) [] []))"
      using assms(2,3,4) by (rule transcripts_of_files_failure)
    then have "ConsoleError (''Failed to fetch transcript for file '' @ file_id f)
            \<in> set (snd (attach_transcript client msg))"
      by (cases "transcripts_of_files client (files msg) [] []") (simp add: attach_transcript_def)
    with True ex r t show ?thesis by simp
  next
    case False
    with Cons have "ConsoleError (''Failed to fetch transcript for file '' @ file_id f) \<in> set b"
      using r by simp
    with r t show ?thesis by simp
  qed
qed

lemma fetchThread_failure:
  assumes "msg \<in> set msgs" and "(case reply_count msg of None \<Rightarrow> 0 | Some n \<Rightarrow> n) > 0"
    and "getConversationReplies client channelId (ts msg) = Inl e"
  shows "ConsoleError (''Failed to fetch thread replies for message '' @ ts msg)
           \<in> set (snd (snd (fetchThreadRepliesForMessages client channelId msgs users)))"
  using assms(1)
proof (induction msgs arbitrary: users)
  case Nil
  then show ?case by simp
next
  case (Cons m ms)
  show ?case
  proof (cases "m = msg")
    case True
    obtain a b c where r: "fetchThreadRepliesForMessages client channelId ms users = (a, b, c)"
      by (rule prod_cases3)
    with True assms(2,3) show ?thesis by simp
  next
    case False
    with Cons.prems have in_ms: "msg \<in> set ms" by simp
    show ?thesis
    proof (cases "(case reply_count m of None \<Rightarrow> 0 | Some n \<Rightarrow> n) > 0")
      case False
      obtain a b c where r: "fetchThreadRepliesForMessages client channelId ms users = (a, b, c)"
        by (rule prod_cases3)
      with Cons.IH [OF in_ms, of users] False show ?thesis by simp
    next
      case True
      show ?thesis
      proof (cases "getConversationReplies client channelId (ts m)")
        case (Inl e')
        obtain a b c where r: "fetchThreadRepliesForMessages client channelId ms users = (a, b, c)"
          by (rule prod_cases3)
        with Cons.IH [OF in_ms, of users] True Inl show ?thesis by simp
      next
        case (Inr replies)
        obtain us lg where u: "reply_users client (drop 1 replies) users [] = (us, lg)"
          by (rule prod.exhaust)
        obtain a b c where r: "fetchThreadRepliesForMessages client channelId ms us = (a, b, c)"
          by (rule prod_cases3)
        with Cons.IH [OF in_ms, of us] True Inr u show ?thesis by simp
      qed
    qed
  qed
qed

lemma download_file_fetch_failure:
  assumes "truthy (download_url file)" and "mode file \<noteq> Some ''tombstone''"
    and "fetchFileBinary client (or_else (download_url file) []) = Inl e"
  shows "download_file client writeFile outputDir s file =
     s\<lparr>fetched := fetched s @ [or_else (download_url file) []],
       failedCount := failedCount s + 1,
       dl_printed := dl_printed s @ [DownloadFailed (file_name_of file) e]\<rparr>"
  using assms by (simp add: download_file_def Let_def)

lemma download_all_exit:
  assumes "listFiles client (dl_channel options) (dl_types options) (dl_count options) = Inr fileList"
  shows "dl_exit (download_all_action (Inr client) writeFile disk0 options) = 0"
  using assms by (simp add: download_all_action_def Let_def)

text \<open>
  Three of the four batch loops record a failure of one item and go on. Transcripts: the
  batch keeps its length, every message is enriched from its own files alone, and a
  fetch that fails is logged with the id of the file. Threads: the same, every message
  is expanded from its own fetch of replies alone, and a fetch that fails is logged with
  the \<open>ts\<close> of the message. Downloads: every file of the listing ends in exactly one of
  the three counts; a download that fails adds one to the failed count and prints the
  failure, and the loop goes on with the files after it; the command ends with exit
  code 0 whenever the listing was fetched.
\<close>

theorem sibling_loops_record_failures:
  "length (fst (fetchTranscriptsForMessages client msgs)) = length msgs
   \<and> (\<forall>i < length msgs.
         fst (fetchTranscriptsForMessages client msgs) ! i = fst (attach_transcript client (msgs ! i)))
   \<and> (\<forall>msg f url e.
         msg \<in> set msgs \<and> f \<in> set (files msg) \<and> vtt_ref f = Some url
         \<and> fetchFileContent client url = Inl e \<longrightarrow>
           ConsoleError (''Failed to fetch transcript for file '' @ file_id f)
             \<in> set (snd (fetchTranscriptsForMessages client msgs)))
   \<and> length (fst (fetchThreadRepliesForMessages client channelId msgs users)) = length msgs
   \<and> (\<forall>i < length msgs.
         fst (fetchThreadRepliesForMessages client channelId msgs users) ! i
           = expand_thread client channelId (msgs ! i))
   \<and> (\<forall>msg e.
         msg \<in> set msgs \<and> (case reply_count msg of None \<Rightarrow> 0 | Some n \<Rightarrow> n) > 0
         \<and> getConversationReplies client channelId (ts msg) = Inl e \<longrightarrow>
           ConsoleError (''Failed to fetch thread replies for message '' @ ts msg)
             \<in> set (snd (snd (fetchThreadRepliesForMessages client channelId msgs users))))
   \<and> downloadedCount (download_loop client writeFile outputDir fileList st)
       + failedCount (download_loop client writeFile outputDir fileList st)
       + skippedCount (download_loop client writeFile outputDir fileList st)
       = downloadedCount st + failedCount st + skippedCount st + length fileList
   \<and> (\<forall>before file rest e.
         fileList = before @ file # rest \<and> truthy (download_url file)
         \<and> mode file \<noteq> Some ''tombstone''
         \<and> fetchFileBinary client (or_else (download_url file) []) = Inl e \<longrightarrow>
           download_loop client writeFile outputDir fileList st
             = download_loop client writeFile outputDir rest
                 ((download_loop client writeFile outputDir before st)
                    \<lparr>fetched := fetched (download_loop client writeFile outputDir before st)
                                 @ [or_else (download_url file) []],
                     failedCount := failedCount (download_loop client writeFile outputDir before st) + 1,
                     dl_printed := dl_printed (download_loop client writeFile outputDir before st)
                                 @ [DownloadFailed (file_name_of file) e]\<rparr>))
   \<and> (listFiles client (dl_channel options) (dl_types options) (dl_count options) = Inr fileList
        \<longrightarrow> dl_exit (download_all_action (Inr client) writeFile disk0 options) = 0)"
proof -
  have a1: "length (fst (fetchTranscriptsForMessages client msgs)) = length msgs"
    by (simp add: fetchTranscripts_map)
  have a2: "\<forall>i < length msgs.
         fst (fetchTranscriptsForMessages client msgs) ! i = fst (attach_transcript client (msgs ! i))"
    by (simp add: fetchTranscripts_map)
  have a3: "\<forall>msg f url e.
         msg \<in> set msgs \<and> f \<in> set (files msg) \<and> vtt_ref f = Some url
         \<and> fetchFileContent client url = Inl e \<longrightarrow>
           ConsoleError (''Failed to fetch transcript for file '' @ file_id f)
             \<in> set (snd (fetchTranscriptsForMessages client msgs))"
    using fetchTranscripts_failure by blast
  have b1: "length (fst (fetchThreadRepliesForMessages client channelId msgs users)) = length msgs"
    by (simp add: fetchThread_map)
  have b2: "\<forall>i < length msgs.
         fst (fetchThreadRepliesForMessages client channelId msgs users) ! i
           = expand_thread client channelId (msgs ! i)"
    by (simp add: fetchThread_map)
  have b3: "\<forall>msg e.
         msg \<in> set msgs \<and> (case reply_count msg of None \<Rightarrow> 0 | Some n \<Rightarrow> n) > 0
         \<and> getConversationReplies client channelId (ts msg) = Inl e \<longrightarrow>
           ConsoleError (''Failed to fetch thread replies for message '' @ ts msg)
             \<in> set (snd (snd (fetchThreadRepliesForMessages client channelId msgs users)))"
    using fetchThread_failure by blast
  have c1: "downloadedCount (download_loop client writeFile outputDir fileList st)
       + failedCount (download_loop client writeFile outputDir fileList st)
       + skippedCount (download_loop client writeFile outputDir fileList st)
       = downloadedCount st + failedCount st + skippedCount st + length fileList"
    by (rule download_loop_counts)
  have c2: "\<forall>before file rest e.
         fileList = before @ file # rest \<and> truthy (download_url file)
         \<and> mode file \<noteq> Some ''tombstone''
         \<and> fetchFileBinary client (or_else (download_url file) []) = Inl e \<longrightarrow>
           download_loop client writeFile outputDir fileList st
             = download_loop client writeFile outputDir rest
                 ((download_loop client writeFile outputDir before st)
                    \<lparr>fetched := fetched (download_loop client writeFile outputDir before st)
                                 @ [or_else (download_url file) []],
                     failedCount := failedCount (download_loop client writeFile outputDir before st) + 1,
                     dl_printed := dl_printed (download_loop client writeFile outputDir before st)
                                 @ [DownloadFailed (file_name_of file) e]\<rparr>)"
  proof (intro allI impI)
    fix before :: "SlackFile list" and g :: SlackFile and rest :: "SlackFile list" and e :: error
    assume h: "fileList = before @ g # rest \<and> truthy (download_url g)
         \<and> mode g \<noteq> Some ''tombstone''
         \<and> fetchFileBinary client (or_else (download_url g) []) = Inl e"
    then have "download_loop client writeFile outputDir fileList st
        = download_loop client writeFile outputDir rest
            (download_file client writeFile outputDir
               (download_loop client writeFile outputDir before st) g)"
      by (simp add: download_loop_append)
    also have "download_file client writeFile outputDir
               (download_loop client writeFile outputDir before st) g
        = (download_loop client writeFile outputDir before st)
                    \<lparr>fetched := fetched (download_loop client writeFile outputDir before st)
                                 @ [or_else (download_url g) []],
                     failedCount := failedCount (download_loop client writeFile outputDir before st) + 1,
                     dl_printed := dl_printed (download_loop client writeFile outputDir before st)
                                 @ [DownloadFailed (file_name_of g) e]\<rparr>"
      using h by (intro download_file_fetch_failure) simp_all
    finally show "download_loop client writeFile outputDir fileList st
             = download_loop client writeFile outputDir rest
                 ((download_loop client writeFile outputDir before st)
                    \<lparr>fetched := fetched (download_loop client writeFile outputDir before st)
                                 @ [or_else (download_url g) []],
                     failedCount := failedCount (download_loop client writeFile outputDir before st) + 1,
                     dl_printed := dl_printed (download_loop client writeFile outputDir before st)
                                 @ [DownloadFailed (file_name_of g) e]\<rparr>)" .
  qed
  have c3: "listFiles client (dl_channel options) (dl_types options) (dl_count options) = Inr fileList
        \<longrightarrow> dl_exit (download_all_action (Inr client) writeFile disk0 options) = 0"
    using download_all_exit by blast
  show ?thesis
    by (rule conjI [OF a1 conjI [OF a2 conjI [OF a3 conjI [OF b1 conjI [OF b2 conjI [OF b3
          conjI [OF c1 conjI [OF c2 c3]]]]]]]])
qed

lemma list2_eqI: "length xs = 2 \<Longrightarrow> xs ! 0 = a \<Longrightarrow> xs ! 1 = b \<Longrightarrow> xs = [a, b]"
  by (cases xs; cases "tl xs") auto

lemma list3_eqI:
  "length xs = 3 \<Longrightarrow> xs ! 0 = a \<Longrightarrow> xs ! 1 = b \<Longrightarrow> xs ! 2 = c \<Longrightarrow> xs = [a, b, c]"
  by (cases xs; cases "tl xs"; cases "tl (tl xs)") auto

text \<open>
  One failing item in each of the three loops: the transcript of the first of two
  videos, the replies of the first of two threads, the download of the first of three
  files (the second is a deleted file).
\<close>

theorem sibling_loops_scenario:
  "fst (fetchTranscriptsForMessages transcript_client [mv1, mv2])
     = [mv1, set_transcript (units ''Hello world'') mv2]
   \<and> ConsoleError ''Failed to fetch transcript for file V1''
       \<in> set (snd (fetchTranscriptsForMessages transcript_client [mv1, mv2]))
   \<and> fst (fetchThreadRepliesForMessages thread_client ''C1'' [m250, m100, m300] Map.empty)
     = [m250, set_thread_replies [m150, m160] m100, m300]
   \<and> ConsoleError ''Failed to fetch thread replies for message 250.000001''
       \<in> set (snd (snd (fetchThreadRepliesForMessages thread_client ''C1'' [m250, m100, m300] Map.empty)))
   \<and> downloadedCount (download_loop flaky_client (\<lambda>p. None) ''out'' [fileA1, fileT, fileA2] (start_state [''out'']))
       + failedCount (download_loop flaky_client (\<lambda>p. None) ''out'' [fileA1, fileT, fileA2] (start_state [''out'']))
       + skippedCount (download_loop flaky_client (\<lambda>p. None) ''out'' [fileA1, fileT, fileA2] (start_state [''out'']))
       = 3"
proof -
  note a = sibling_loops_record_failures [where client = transcript_client and msgs = "[mv1, mv2]"]
  note b = sibling_loops_record_failures [where client = thread_client and msgs = "[m250, m100, m300]"
      and channelId = "''C1''" and users = Map.empty]
  note c = sibling_loops_record_failures [where client = flaky_client and writeFile = "\<lambda>p. None"
      and outputDir = "''out''" and fileList = "[fileA1, fileT, fileA2]"
      and st = "start_state [''out'']"]
  have p: "parseVttToText
       (units ''WEBVTT\<newline>\<newline>1\<newline>00:00:00.000 --> 00:00:02.000\<newline>Hello <b>world</b>\<newline>'')
       = units ''Hello world''"
    by (simp add: vtt_eval)
  have q: "units ''Hello world'' \<noteq> []"
    by (simp add: units_def)
  have a1: "fst (attach_transcript transcript_client mv1) = mv1"
    by (simp add: attach_transcript_def transcript_client_def mv1_def fileV1_def vtt_ref_def)
  have a2: "fst (attach_transcript transcript_client mv2) = set_transcript (units ''Hello world'') mv2"
    by (simp add: attach_transcript_def transcript_client_def mv2_def fileV2_def vtt_ref_def p q)
  let ?tr = "fst (fetchTranscriptsForMessages transcript_client [mv1, mv2])"
  have tl: "length ?tr = 2"
    using a [THEN conjunct1] by (simp only: list.size; simp)
  have t0: "?tr ! 0 = mv1"
    using a [THEN conjunct2, THEN conjunct1, rule_format, of 0] a1 by (simp only: nth_Cons_0 list.size; simp)
  have t1: "?tr ! 1 = set_transcript (units ''Hello world'') mv2"
    using a [THEN conjunct2, THEN conjunct1, rule_format, of 1] a2
    by (simp only: nth_Cons_0 nth_Cons_Suc One_nat_def list.size; simp)
  from tl t0 t1 have 1: "?tr = [mv1, set_transcript (units ''Hello world'') mv2]"
    by (rule list2_eqI)
  have v: "vtt_ref fileV1 = Some ''https://files/V1.vtt''"
    by (simp add: fileV1_def vtt_ref_def)
  have w: "fetchFileContent transcript_client ''https://files/V1.vtt'' = Inl (Failure ''network'')"
    by (simp add: transcript_client_def)
  have i: "mv1 \<in> set [mv1, mv2]" "fileV1 \<in> set (files mv1)" "file_id fileV1 = ''V1''"
    by (simp_all add: mv1_def fileV1_def)
  have "ConsoleError (''Failed to fetch transcript for file '' @ file_id fileV1)
       \<in> set (snd (fetchTranscriptsForMessages transcript_client [mv1, mv2]))"
    using i(1,2) v w by (intro a [THEN conjunct2, THEN conjunct2, THEN conjunct1, rule_format] conjI)
  then have 2: "ConsoleError ''Failed to fetch transcript for file V1''
       \<in> set (snd (fetchTranscriptsForMessages transcript_client [mv1, mv2]))"
    by (simp only: i(3) append.simps)
  have b1: "expand_thread thread_client ''C1'' m250 = m250"
    by (simp add: expand_thread_def thread_client_def m250_def)
  have b2: "expand_thread thread_client ''C1'' m100 = set_thread_replies [m150, m160] m100"
    by (simp add: expand_thread_def thread_client_def m100_def)
  have b3: "expand_thread thread_client ''C1'' m300 = m300"
    by (simp add: expand_thread_def thread_client_def m300_def)
  let ?th = "fst (fetchThreadRepliesForMessages thread_client ''C1'' [m250, m100, m300] Map.empty)"
  note bl = b [THEN conjunct2, THEN conjunct2, THEN conjunct2, THEN conjunct1]
  note bn = b [THEN conjunct2, THEN conjunct2, THEN conjunct2, THEN conjunct2, THEN conjunct1, rule_format]
  have hl: "length ?th = 3"
    using bl by (simp only: list.size; simp)
  have h0: "?th ! 0 = m250"
    using bn [of 0] b1 by (simp only: nth_Cons_0 list.size; simp)
  have h1: "?th ! 1 = set_thread_replies [m150, m160] m100"
    using bn [of 1] b2 by (simp only: nth_Cons_0 nth_Cons_Suc One_nat_def list.size; simp)
  have h2: "?th ! 2 = m300"
    using bn [of 2] b3 by (simp only: nth_Cons_0 nth_Cons_numeral list.size; simp)
  from hl h0 h1 h2 have 3: "?th = [m250, set_thread_replies [m150, m160] m100, m300]"
    by (rule list3_eqI)
  have j: "m250 \<in> set [m250, m100, m300]"
      "(case reply_count m250 of None \<Rightarrow> 0 | Some n \<Rightarrow> n) > 0"
      "getConversationReplies thread_client ''C1'' (ts m250) = Inl (Failure ''network'')"
      "ts m250 = ''250.000001''"
    by (simp_all add: m250_def thread_client_def)
  have "ConsoleError (''Failed to fetch thread replies for message '' @ ts m250)
       \<in> set (snd (snd (fetchThreadRepliesForMessages thread_client ''C1'' [m250, m100, m300] Map.empty)))"
    using j(1,2,3)
    by (intro b [THEN conjunct2, THEN conjunct2, THEN conjunct2, THEN conjunct2, THEN conjunct2,
                  THEN conjunct1, rule_format] conjI)
  then have 4: "ConsoleError ''Failed to fetch thread replies for message 250.000001''
       \<in> set (snd (snd (fetchThreadRepliesForMessages thread_client ''C1'' [m250, m100, m300] Map.empty)))"
    by (simp only: j(4) append.simps)
  have z: "downloadedCount (start_state [''out'']) + failedCount (start_state [''out''])
             + skippedCount (start_state [''out'']) + length [fileA1, fileT, fileA2] = 3"
    by (simp add: start_state_def)
  have 5: "downloadedCount (download_loop flaky_client (\<lambda>p. None) ''out'' [fileA1, fileT, fileA2] (start_state [''out'']))
       + failedCount (download_loop flaky_client (\<lambda>p. None) ''out'' [fileA1, fileT, fileA2] (start_state [''out'']))
       + skippedCount (download_loop flaky_client (\<lambda>p. None) ''out'' [fileA1, fileT, fileA2] (start_state [''out'']))
       = 3"
    using c [THEN conjunct2, THEN conjunct2, THEN conjunct2, THEN conjunct2, THEN conjunct2,
             THEN conjunct2, THEN conjunct1] z
    by (rule trans)
  show ?thesis
    by (rule conjI [OF 1 conjI [OF 2 conjI [OF 3 conjI [OF 4 5]]]])
qed

lemma fetch_unread_mark:
  "fetch_unread (client\<lparr>markConversation := f\<rparr>) ch = fetch_unread client ch"
  by (simp add: fetch_unread_def Let_def cong: sum.case_cong)

lemma show_loop_mark:
  "show_loop (client\<lparr>markConversation := f\<rparr>) chs st = show_loop client chs st"
proof (induction chs arbitrary: st)
  case Nil
  show ?case by simp
next
  case (Cons ch chs)
  then show ?case
    by (cases "fetch_unread client ch") (simp_all add: fetch_unread_mark)
qed

text \<open>
  C6. The claim holds of the three loops above and fails for the mark-read loop of
  \<open>conversations unread\<close>, which is where the code departs from them: a
  \<open>markConversation\<close> call that throws is caught and nothing is done about it. Whatever
  the mark-read calls return, the command leaves behind exactly what it leaves behind
  with any other \<open>markConversation\<close>: its output, the conversations reported as marked
  and its exit code do not depend on the outcome of the calls. With two conversations
  shown and every mark-read call failing, the command still reports
  \<open>Marked 2 conversation(s) as read\<close>, prints no error and ends with exit code 0: the
  failure is neither recorded nor logged, and the report counts the failed items as
  marked.
\<close>

theorem mark_failure_unreported:
  "unread_action (Inr (client\<lparr>markConversation := f\<rparr>)) options
     = unread_action (Inr client) options
   \<and> markConversation mark_failing_client ''C1'' ''200.000001'' = Inl (Failure ''network'')
   \<and> markConversation mark_failing_client ''C2'' ''300.000001'' = Inl (Failure ''network'')
   \<and> u_marked (unread_action (Inr mark_failing_client) show_and_mark)
       = [(''C2'', ''300.000001''), (''C1'', ''200.000001'')]
   \<and> u_printed (unread_action (Inr mark_failing_client) show_and_mark)
       = [SpinnerSucceed ''Marked 2 conversation(s) as read'']
   \<and> u_exit (unread_action (Inr mark_failing_client) show_and_mark) = 0
   \<and> unread_action (Inr mark_failing_client) show_and_mark
       = unread_action (Inr unread_client) show_and_mark"
proof -
  have sh: "unread_show (client\<lparr>markConversation := f\<rparr>) options chs
     = unread_show client options chs" for chs
    by (simp add: unread_show_def show_loop_mark mark_loop_all Let_def
        split: prod.split option.split)
  have g: "unread_action (Inr (client\<lparr>markConversation := f\<rparr>)) options
     = unread_action (Inr client) options"
    by (cases "getUserCounts client") (simp_all add: unread_action_def sh Let_def)
  have n: "string_of_nat (Suc (Suc 0)) = ''2''" by code_simp
  have c: "markConversation mark_failing_client ''C1'' ''200.000001'' = Inl (Failure ''network'')
   \<and> markConversation mark_failing_client ''C2'' ''300.000001'' = Inl (Failure ''network'')
   \<and> u_marked (unread_action (Inr mark_failing_client) show_and_mark)
       = [(''C2'', ''300.000001''), (''C1'', ''200.000001'')]
   \<and> u_printed (unread_action (Inr mark_failing_client) show_and_mark)
       = [SpinnerSucceed ''Marked 2 conversation(s) as read'']
   \<and> u_exit (unread_action (Inr mark_failing_client) show_and_mark) = 0
   \<and> unread_action (Inr mark_failing_client) show_and_mark
       = unread_action (Inr unread_client) show_and_mark"
    by (simp add: unread_eval mark_failing_client_def n)
  from g c show ?thesis by (rule conjI)
qed
end
